theory Spec2Isabelle
  imports Main "HOL-Library.Word"
begin

unbundle bit_operations_syntax

section \<open>Tokens (scanner.h)\<close>

text \<open>
  The token kinds, in the order of the rule table of compiler.c (one row per kind).
\<close>

datatype TokenType =
    TOKEN_LEFT_PAREN | TOKEN_RIGHT_PAREN | TOKEN_LEFT_BRACKET | TOKEN_RIGHT_BRACKET
  | TOKEN_LEFT_BRACE | TOKEN_RIGHT_BRACE | TOKEN_BANG | TOKEN_BANG_EQUAL | TOKEN_COMMA
  | TOKEN_DOT | TOKEN_EQUAL | TOKEN_EQUAL_EQUAL | TOKEN_GREATER | TOKEN_GREATER_EQUAL
  | TOKEN_LESS | TOKEN_LESS_EQUAL | TOKEN_MINUS | TOKEN_PLUS | TOKEN_SEMICOLON
  | TOKEN_SLASH | TOKEN_STAR
  | TOKEN_IDENTIFIER | TOKEN_STRING | TOKEN_NUMBER
  | TOKEN_AND | TOKEN_CLASS | TOKEN_ELSE | TOKEN_FALSE | TOKEN_FUN | TOKEN_FOR | TOKEN_IF
  | TOKEN_NULL | TOKEN_OR | TOKEN_RETURN | TOKEN_THIS | TOKEN_TRUE | TOKEN_VAR | TOKEN_WHILE
  | TOKEN_ERROR | TOKEN_EOF

text \<open>
  A token: its kind, its lexeme (the slice \<open>start[0..length)\<close> of the source text, so that
  the source's comparison of two lengths followed by \<open>memcmp\<close> is equality of lexemes)
  and its line.
\<close>

record Token =
  type :: TokenType
  lexeme :: string
  line :: int

section \<open>Values and function objects (object.h, vm.h)\<close>

text \<open>
  A value is what the constructors used by the compiler build: \<open>newBool\<close>, \<open>newNumber\<close>,
  \<open>newString\<close>, or a pointer to a function object, which is \<open>NULL\<close> (\<open>None\<close>) when
  \<open>endCompiler\<close> returns no function. \<open>VNumber\<close> carries the lexeme handed to \<open>strtod\<close>;
  the floating-point value itself is not interpreted.

  A function object has the fields the compiler touches: the code bytes
  \<open>code[0..codeCount)\<close>, the parallel array \<open>codeLines\<close>, \<open>codeCapacity\<close>, the constant
  pool \<open>constants.values[0..constants.count)\<close> and \<open>arity\<close>. The two parallel arrays are
  two lists, so that nothing in the type ties their lengths together.
\<close>

datatype Value =
    VBool bool
  | VNumber string
  | VString string
  | VFunction "ObjFunction option"
and ObjFunction =
  ObjFunction (code: "8 word list") (codeLines: "int list") (codeCapacity: int)
              (constants: "Value list") (arity: int)

text \<open>
  Modelled from the spec: \<open>newFunction\<close> of object.c is missing; it allocates a fresh
  function-in-progress: no code, no constants, arity 0.
\<close>

definition newFunction :: ObjFunction where
  "newFunction = ObjFunction [] [] 0 [] 0"

text \<open>
  The opcodes of vm.h. Their numeric values are not part of compiler.c: every function
  that emits an opcode takes the encoding \<open>opc\<close> as a parameter. The call opcodes are
  contiguous, \<open>OP_CALL_0 + n\<close> being the call with \<open>n\<close> arguments.
\<close>

datatype OpCode =
    OP_CONSTANT | OP_NULL | OP_POP | OP_GET_LOCAL | OP_SET_LOCAL | OP_GET_GLOBAL
  | OP_SET_GLOBAL | OP_DEFINE_GLOBAL | OP_EQUAL | OP_GREATER | OP_LESS | OP_ADD
  | OP_SUBTRACT | OP_MULTIPLY | OP_DIVIDE | OP_NOT | OP_NEGATE | OP_JUMP
  | OP_JUMP_IF_FALSE | OP_LOOP | OP_CALL_0 | OP_RETURN

type_synonym encoding = "OpCode \<Rightarrow> 8 word"

section \<open>Parser and compiler state\<close>

definition MAX_LOCALS :: int where
  "MAX_LOCALS = 256"

record Local =
  name :: Token
  depth :: int

text \<open>
  One compiler frame. \<open>locals\<close> is \<open>locals[0..localCount)\<close>: entry \<open>i\<close> of the list is slot
  \<open>i\<close> of the array, and \<open>localCount\<close> is the length of the list. The link \<open>enclosing\<close> is
  the tail of the list of frames in the state below.
\<close>

record Compiler =
  "function" :: ObjFunction
  locals :: "Local list"
  scopeDepth :: int

definition localCount :: "Compiler \<Rightarrow> int" where
  "localCount c = int (length (locals c))"

text \<open>
  The globals of compiler.c together with what they read and write outside:
  \<^item> \<open>hadError\<close>, \<open>current\<close>, \<open>previous\<close>: the fields of \<open>parser\<close>;
  \<^item> \<open>compiler\<close>: the chain \<open>compiler, compiler->enclosing, ...\<close>, innermost first;
    the empty list is \<open>compiler == NULL\<close>;
  \<^item> \<open>pending\<close>, \<open>eofLine\<close>: the scanner, see \<open>scanToken\<close>;
  \<^item> \<open>stderr\<close>: the diagnostics printed so far, as pairs of line and message.
\<close>

record State =
  hadError :: bool
  current :: Token
  previous :: Token
  compiler :: "Compiler list"
  pending :: "Token list"
  eofLine :: int
  stderr :: "(int \<times> string) list"

text \<open>
  Modelled from the spec: the scanner (scanner.c) is missing; \<open>scan_token\<close> produces the
  next token and, after the last real token, returns \<open>TOKEN_EOF\<close> indefinitely. The
  source text is represented by the tokens the scanner yields for it (\<open>pending\<close>) and the
  line of its end-of-file token.
\<close>

definition scanToken :: "State \<Rightarrow> Token \<times> State" where
  "scanToken s =
     (case pending s of
        [] \<Rightarrow> (\<lparr>type = TOKEN_EOF, lexeme = [], line = eofLine s\<rparr>, s)
      | t # ts \<Rightarrow> (t, s\<lparr>pending := ts\<rparr>))"

section \<open>Token stream adapter\<close>

definition advance :: "State \<Rightarrow> State" where
  "advance s =
     (let s1 = s\<lparr>previous := current s\<rparr>;
          (t, s2) = scanToken s1
      in s2\<lparr>current := t\<rparr>)"

definition errorAt :: "int \<Rightarrow> string \<Rightarrow> State \<Rightarrow> State" where
  "errorAt l message s = s\<lparr>stderr := stderr s @ [(l, message)], hadError := True\<rparr>"

definition error :: "string \<Rightarrow> State \<Rightarrow> State" where
  "error message s = errorAt (line (previous s)) message s"

definition consume :: "TokenType \<Rightarrow> string \<Rightarrow> State \<Rightarrow> State" where
  "consume ty message s =
     advance (if type (current s) \<noteq> ty then error message s else s)"

definition check :: "TokenType \<Rightarrow> State \<Rightarrow> bool" where
  "check ty s = (type (current s) = ty)"

definition match :: "TokenType \<Rightarrow> State \<Rightarrow> bool \<times> State" where
  "match ty s = (if \<not> check ty s then (False, s) else (True, advance s))"

section \<open>Emitter\<close>

text \<open>
  \<open>emitByte\<close> on the function object: grow the capacity (4, then doubling) when the
  buffers are full, store the byte at \<open>code[codeCount]\<close> and the line at
  \<open>codeLines[codeCount]\<close>, and increment \<open>codeCount\<close>.
\<close>

definition writeByte :: "8 word \<Rightarrow> int \<Rightarrow> ObjFunction \<Rightarrow> ObjFunction" where
  "writeByte byte l f =
     ObjFunction (code f @ [byte]) (codeLines f @ [l])
       (if codeCapacity f < int (length (code f)) + 1
        then (if codeCapacity f = 0 then 4 else codeCapacity f * 2)
        else codeCapacity f)
       (constants f) (arity f)"

text \<open>
  The functions below dereference \<open>compiler\<close>, which is not \<open>NULL\<close> between
  \<open>beginCompiler\<close> and the matching \<open>endCompiler\<close>; on the empty chain the model leaves
  the state as it is.
\<close>

definition emitByte :: "8 word \<Rightarrow> State \<Rightarrow> State" where
  "emitByte byte s =
     (case compiler s of
        [] \<Rightarrow> s
      | c # cs \<Rightarrow>
          s\<lparr>compiler := c\<lparr>function := writeByte byte (line (previous s)) (function c)\<rparr> # cs\<rparr>)"

definition emitBytes :: "8 word \<Rightarrow> 8 word \<Rightarrow> State \<Rightarrow> State" where
  "emitBytes byte1 byte2 s = emitByte byte2 (emitByte byte1 s)"

definition codeCount :: "State \<Rightarrow> int" where
  "codeCount s = (case compiler s of [] \<Rightarrow> 0 | c # cs \<Rightarrow> int (length (code (function c))))"

text \<open>The cast of an \<open>int\<close> expression to \<open>uint8_t\<close>.\<close>

definition u8 :: "int \<Rightarrow> 8 word" where
  "u8 i = word_of_int i"

definition emitLoop :: "encoding \<Rightarrow> int \<Rightarrow> State \<Rightarrow> State" where
  "emitLoop opc loopStart s =
     (let s1 = emitByte (opc OP_LOOP) s;
          offset = codeCount s1 - loopStart + 2;
          s2 = emitByte (u8 ((drop_bit 8 offset) AND 0xff)) s1
      in emitByte (u8 (offset AND 0xff)) s2)"

definition emitJump :: "8 word \<Rightarrow> State \<Rightarrow> int \<times> State" where
  "emitJump instruction s =
     (let s1 = emitByte instruction s;
          s2 = emitByte 0xff s1;
          s3 = emitByte 0xff s2
      in (codeCount s3 - 2, s3))"

text \<open>
  A store \<open>code[i] = b\<close>. Every offset the compiler patches was returned by \<open>emitJump\<close>
  for the same function, so it is inside the code; a store outside \<open>code[0..codeCount)\<close>
  leaves the modelled bytes as they are.
\<close>

definition storeCode :: "int \<Rightarrow> 8 word \<Rightarrow> ObjFunction \<Rightarrow> ObjFunction" where
  "storeCode i b f =
     (if 0 \<le> i \<and> i < int (length (code f))
      then ObjFunction ((code f)[nat i := b]) (codeLines f) (codeCapacity f)
             (constants f) (arity f)
      else f)"

definition patchJump :: "int \<Rightarrow> State \<Rightarrow> State" where
  "patchJump offset s =
     (case compiler s of
        [] \<Rightarrow> s
      | c # cs \<Rightarrow>
          (let jump = codeCount s - offset - 2;
               f1 = storeCode offset (u8 ((drop_bit 8 jump) AND 0xff)) (function c);
               f2 = storeCode (offset + 1) (u8 (jump AND 0xff)) f1
           in s\<lparr>compiler := c\<lparr>function := f2\<rparr> # cs\<rparr>))"


section \<open>Compiler frames and scopes\<close>

definition beginCompiler :: "State \<Rightarrow> State" where
  "beginCompiler s =
     s\<lparr>compiler := \<lparr>function = newFunction, locals = [], scopeDepth = -1\<rparr> # compiler s\<rparr>"

text \<open>
  \<open>endCompiler\<close> returns the function, or \<open>NULL\<close> (\<open>None\<close>) after a compile error, and
  makes the enclosing frame current.
\<close>

definition endCompiler :: "encoding \<Rightarrow> State \<Rightarrow> ObjFunction option \<times> State" where
  "endCompiler opc s =
     (let s1 = emitBytes (opc OP_NULL) (opc OP_RETURN) s
      in case compiler s1 of
           [] \<Rightarrow> (None, s1)
         | c # cs \<Rightarrow>
             (if hadError s1 then None else Some (function c), s1\<lparr>compiler := cs\<rparr>))"

definition beginScope :: "State \<Rightarrow> State" where
  "beginScope s =
     (case compiler s of
        [] \<Rightarrow> s
      | c # cs \<Rightarrow> s\<lparr>compiler := c\<lparr>scopeDepth := scopeDepth c + 1\<rparr> # cs\<rparr>)"

text \<open>
  The loop of \<open>endScope\<close>: one \<open>OP_POP\<close> per local on top of the table that is deeper
  than the scope depth; \<open>dropLocal\<close> is \<open>localCount--\<close>. The first argument of the
  loop counts the locals still to look at.
\<close>

definition dropLocal :: "State \<Rightarrow> State" where
  "dropLocal s =
     (case compiler s of
        [] \<Rightarrow> s
      | c # cs \<Rightarrow> s\<lparr>compiler := c\<lparr>locals := butlast (locals c)\<rparr> # cs\<rparr>)"

fun popLocals :: "nat \<Rightarrow> encoding \<Rightarrow> State \<Rightarrow> State" where
  "popLocals 0 opc s = s"
| "popLocals (Suc k) opc s =
     (case compiler s of
        [] \<Rightarrow> s
      | c # cs \<Rightarrow>
          (if localCount c > 0 \<and> depth (last (locals c)) > scopeDepth c
           then popLocals k opc (dropLocal (emitByte (opc OP_POP) s))
           else s))"

definition endScope :: "encoding \<Rightarrow> State \<Rightarrow> State" where
  "endScope opc s =
     (case compiler s of
        [] \<Rightarrow> s
      | c # cs \<Rightarrow>
          (let s1 = s\<lparr>compiler := c\<lparr>scopeDepth := scopeDepth c - 1\<rparr> # cs\<rparr>
           in popLocals (length (locals c)) opc s1))"

section \<open>Constants\<close>

text \<open>
  \<open>addConstant\<close>: the value is pushed on the VM stack and popped again around the
  growth of the array (the VM stack is left as it was); the value is stored at
  \<open>values[count]\<close>, \<open>count\<close> is incremented, and the new \<open>count\<close> is returned as a byte.
\<close>

definition addConstant :: "Value \<Rightarrow> State \<Rightarrow> 8 word \<times> State" where
  "addConstant v s =
     (case compiler s of
        [] \<Rightarrow> (0, s)
      | c # cs \<Rightarrow>
          (let f = function c;
               f1 = ObjFunction (code f) (codeLines f) (codeCapacity f)
                      (constants f @ [v]) (arity f)
           in (u8 (int (length (constants f1))), s\<lparr>compiler := c\<lparr>function := f1\<rparr> # cs\<rparr>)))"

definition nameConstant :: "State \<Rightarrow> 8 word \<times> State" where
  "nameConstant s = addConstant (VString (lexeme (previous s))) s"

definition emitConstant :: "encoding \<Rightarrow> Value \<Rightarrow> State \<Rightarrow> State" where
  "emitConstant opc v s =
     (let (constant, s1) = addConstant v s
      in emitBytes (opc OP_CONSTANT) constant s1)"

section \<open>Variables\<close>

text \<open>
  The loop of \<open>resolveLocal\<close>, from \<open>i = localCount - 1\<close> down to 0; the first argument
  is \<open>i + 1\<close>.
\<close>

fun resolveLoop :: "nat \<Rightarrow> Local list \<Rightarrow> Token \<Rightarrow> int" where
  "resolveLoop 0 ls nm = -1"
| "resolveLoop (Suc i) ls nm =
     (if lexeme (name (ls ! i)) = lexeme nm then int i else resolveLoop i ls nm)"

definition resolveLocal :: "Token \<Rightarrow> State \<Rightarrow> int" where
  "resolveLocal nm s =
     (case compiler s of
        [] \<Rightarrow> -1
      | c # cs \<Rightarrow> resolveLoop (length (locals c)) (locals c) nm)"

text \<open>
  \<open>parseVariable\<close> writes \<open>*constant\<close> only at global scope; the model takes the value the
  caller's variable holds and returns the value it holds afterwards.
\<close>

definition parseVariable :: "string \<Rightarrow> 8 word \<Rightarrow> State \<Rightarrow> Token \<times> 8 word \<times> State" where
  "parseVariable message constant s =
     (let s1 = consume TOKEN_IDENTIFIER message s;
          nm = previous s1
      in case compiler s1 of
           [] \<Rightarrow> (nm, constant, s1)
         | c # cs \<Rightarrow>
             (if scopeDepth c = -1
              then (let (k, s2) = nameConstant s1 in (nm, k, s2))
              else (nm, constant, s1)))"

text \<open>
  What the compiler cannot return from: the fuel of the model running out, a store past
  \<open>locals[MAX_LOCALS - 1]\<close> (the source does not check \<open>localCount\<close>), a call through a
  \<open>NULL\<close> rule, and \<open>assert(false)\<close>.
\<close>

datatype fault = OutOfFuel | LocalsOverflow | NullRule | AssertFalse

text \<open>
  The duplicate scan of \<open>declareVariable\<close>, over the locals from the top of the table
  down: it stops at the first local of an enclosing scope and reports every local of the
  same name it meets before.
\<close>

fun scanLocals :: "Token \<Rightarrow> int \<Rightarrow> Local list \<Rightarrow> State \<Rightarrow> State" where
  "scanLocals nm sd [] s = s"
| "scanLocals nm sd (l # ls) s =
     (if depth l < sd then s
      else scanLocals nm sd ls
             (if lexeme nm = lexeme (name l)
              then errorAt (line nm)
                     ''Variable with this name already declared in this scope.'' s
              else s))"

definition declareVariable :: "encoding \<Rightarrow> Token \<Rightarrow> 8 word \<Rightarrow> State \<Rightarrow> fault + State" where
  "declareVariable opc nm constant s =
     (case compiler s of
        [] \<Rightarrow> Inr s
      | c # cs \<Rightarrow>
          (if scopeDepth c = -1
           then Inr (emitBytes (opc OP_DEFINE_GLOBAL) constant s)
           else (let s1 = scanLocals nm (scopeDepth c) (rev (locals c)) s
                 in if localCount c \<ge> MAX_LOCALS then Inl LocalsOverflow
                    else Inr (s1\<lparr>compiler :=
                           c\<lparr>locals := locals c @ [\<lparr>name = nm, depth = scopeDepth c\<rparr>]\<rparr> # cs\<rparr>))))"


section \<open>The rule table\<close>

definition PREC_NONE :: nat where "PREC_NONE = 0"
definition PREC_ASSIGNMENT :: nat where "PREC_ASSIGNMENT = 1"
definition PREC_OR :: nat where "PREC_OR = 2"
definition PREC_AND :: nat where "PREC_AND = 3"
definition PREC_EQUALITY :: nat where "PREC_EQUALITY = 4"
definition PREC_COMPARISON :: nat where "PREC_COMPARISON = 5"
definition PREC_TERM :: nat where "PREC_TERM = 6"
definition PREC_FACTOR :: nat where "PREC_FACTOR = 7"
definition PREC_UNARY :: nat where "PREC_UNARY = 8"
definition PREC_CALL :: nat where "PREC_CALL = 9"
definition PREC_PRIMARY :: nat where "PREC_PRIMARY = 10"

text \<open>The parse functions a rule can point to; \<open>None\<close> is a \<open>NULL\<close> entry.\<close>

datatype ParseFn =
    Grouping | Call | Unary | Binary | Variable | String | Number | And | Or | Boolean | Null

record ParseRule =
  prefixRule :: "ParseFn option"
  infixRule :: "ParseFn option"
  precedence :: nat

definition rule :: "ParseFn option \<Rightarrow> ParseFn option \<Rightarrow> nat \<Rightarrow> ParseRule" where
  "rule p i r = \<lparr>prefixRule = p, infixRule = i, precedence = r\<rparr>"

fun getRule :: "TokenType \<Rightarrow> ParseRule" where
  "getRule TOKEN_LEFT_PAREN = rule (Some Grouping) (Some Call) PREC_CALL"
| "getRule TOKEN_RIGHT_PAREN = rule None None PREC_NONE"
| "getRule TOKEN_LEFT_BRACKET = rule None None PREC_NONE"
| "getRule TOKEN_RIGHT_BRACKET = rule None None PREC_NONE"
| "getRule TOKEN_LEFT_BRACE = rule None None PREC_NONE"
| "getRule TOKEN_RIGHT_BRACE = rule None None PREC_NONE"
| "getRule TOKEN_BANG = rule (Some Unary) None PREC_NONE"
| "getRule TOKEN_BANG_EQUAL = rule None (Some Binary) PREC_EQUALITY"
| "getRule TOKEN_COMMA = rule None None PREC_NONE"
| "getRule TOKEN_DOT = rule None None PREC_NONE"
| "getRule TOKEN_EQUAL = rule None None PREC_NONE"
| "getRule TOKEN_EQUAL_EQUAL = rule None (Some Binary) PREC_EQUALITY"
| "getRule TOKEN_GREATER = rule None (Some Binary) PREC_COMPARISON"
| "getRule TOKEN_GREATER_EQUAL = rule None (Some Binary) PREC_COMPARISON"
| "getRule TOKEN_LESS = rule None (Some Binary) PREC_COMPARISON"
| "getRule TOKEN_LESS_EQUAL = rule None (Some Binary) PREC_COMPARISON"
| "getRule TOKEN_MINUS = rule (Some Unary) (Some Binary) PREC_TERM"
| "getRule TOKEN_PLUS = rule None (Some Binary) PREC_TERM"
| "getRule TOKEN_SEMICOLON = rule None None PREC_NONE"
| "getRule TOKEN_SLASH = rule None (Some Binary) PREC_FACTOR"
| "getRule TOKEN_STAR = rule None (Some Binary) PREC_FACTOR"
| "getRule TOKEN_IDENTIFIER = rule (Some Variable) None PREC_NONE"
| "getRule TOKEN_STRING = rule (Some String) None PREC_NONE"
| "getRule TOKEN_NUMBER = rule (Some Number) None PREC_NONE"
| "getRule TOKEN_AND = rule None (Some And) PREC_AND"
| "getRule TOKEN_CLASS = rule None None PREC_NONE"
| "getRule TOKEN_ELSE = rule None None PREC_NONE"
| "getRule TOKEN_FALSE = rule (Some Boolean) None PREC_NONE"
| "getRule TOKEN_FUN = rule None None PREC_NONE"
| "getRule TOKEN_FOR = rule None None PREC_NONE"
| "getRule TOKEN_IF = rule None None PREC_NONE"
| "getRule TOKEN_NULL = rule (Some Null) None PREC_NONE"
| "getRule TOKEN_OR = rule None (Some Or) PREC_OR"
| "getRule TOKEN_RETURN = rule None None PREC_NONE"
| "getRule TOKEN_THIS = rule None None PREC_NONE"
| "getRule TOKEN_TRUE = rule (Some Boolean) None PREC_NONE"
| "getRule TOKEN_VAR = rule None None PREC_NONE"
| "getRule TOKEN_WHILE = rule None None PREC_NONE"
| "getRule TOKEN_ERROR = rule None None PREC_NONE"
| "getRule TOKEN_EOF = rule None None PREC_NONE"

section \<open>Parse functions without recursion\<close>

definition boolean :: "encoding \<Rightarrow> State \<Rightarrow> State" where
  "boolean opc s = emitConstant opc (VBool (type (previous s) = TOKEN_TRUE)) s"

definition null_fn :: "encoding \<Rightarrow> State \<Rightarrow> State" where
  "null_fn opc s = emitByte (opc OP_NULL) s"

definition number :: "encoding \<Rightarrow> State \<Rightarrow> State" where
  "number opc s = emitConstant opc (VNumber (lexeme (previous s))) s"

text \<open>The string constant is the lexeme without its quotes: \<open>start + 1\<close>, \<open>length - 2\<close>.\<close>

definition string_fn :: "encoding \<Rightarrow> State \<Rightarrow> State" where
  "string_fn opc s =
     (let lx = lexeme (previous s)
      in emitConstant opc (VString (take (nat (int (length lx) - 2)) (drop 1 lx))) s)"

text \<open>The operator instruction of \<open>binary\<close> and of \<open>unary\<close>.\<close>

definition binaryOp :: "encoding \<Rightarrow> TokenType \<Rightarrow> State \<Rightarrow> fault + State" where
  "binaryOp opc operatorType s =
     (if operatorType = TOKEN_BANG_EQUAL then Inr (emitBytes (opc OP_EQUAL) (opc OP_NOT) s)
      else if operatorType = TOKEN_EQUAL_EQUAL then Inr (emitByte (opc OP_EQUAL) s)
      else if operatorType = TOKEN_GREATER then Inr (emitByte (opc OP_GREATER) s)
      else if operatorType = TOKEN_GREATER_EQUAL then Inr (emitBytes (opc OP_LESS) (opc OP_NOT) s)
      else if operatorType = TOKEN_LESS then Inr (emitByte (opc OP_LESS) s)
      else if operatorType = TOKEN_LESS_EQUAL then Inr (emitBytes (opc OP_GREATER) (opc OP_NOT) s)
      else if operatorType = TOKEN_PLUS then Inr (emitByte (opc OP_ADD) s)
      else if operatorType = TOKEN_MINUS then Inr (emitByte (opc OP_SUBTRACT) s)
      else if operatorType = TOKEN_STAR then Inr (emitByte (opc OP_MULTIPLY) s)
      else if operatorType = TOKEN_SLASH then Inr (emitByte (opc OP_DIVIDE) s)
      else Inl AssertFalse)"

definition unaryOp :: "encoding \<Rightarrow> TokenType \<Rightarrow> State \<Rightarrow> fault + State" where
  "unaryOp opc operatorType s =
     (if operatorType = TOKEN_BANG then Inr (emitByte (opc OP_NOT) s)
      else if operatorType = TOKEN_MINUS then Inr (emitByte (opc OP_NEGATE) s)
      else Inl AssertFalse)"


section \<open>Parameters of a function declaration\<close>

definition incArity :: "State \<Rightarrow> State" where
  "incArity s =
     (case compiler s of
        [] \<Rightarrow> s
      | c # cs \<Rightarrow>
          (let f = function c
           in s\<lparr>compiler :=
                c\<lparr>function := ObjFunction (code f) (codeLines f) (codeCapacity f)
                                 (constants f) (arity f + 1)\<rparr> # cs\<rparr>))"

text \<open>
  The \<open>do ... while (match(TOKEN_COMMA))\<close> loop of \<open>funStatement\<close>. \<open>paramConstant\<close> is
  not initialised in the source; it is written by \<open>parseVariable\<close> and read by
  \<open>declareVariable\<close> only at scope depth -1, and the model starts it at 0.
\<close>

fun parameters :: "encoding \<Rightarrow> nat \<Rightarrow> State \<Rightarrow> fault + State" where
  "parameters opc 0 s = Inl OutOfFuel"
| "parameters opc (Suc n) s =
     (let (param, paramConstant, s1) = parseVariable ''Expect parameter name.'' 0 s
      in case declareVariable opc param paramConstant s1 of
           Inl e \<Rightarrow> Inl e
         | Inr s2 \<Rightarrow>
             (let (m, s3) = match TOKEN_COMMA (incArity s2)
              in if m then parameters opc n s3 else Inr s3))"

section \<open>Expressions and statements\<close>

text \<open>
  The parser's functions call each other recursively. Each is written once, as in the
  source, over the parameter \<open>rec\<close>, which stands for a call of one of the recursive
  functions of compiler.c, named by a \<open>Proc\<close>; \<open>run\<close> below ties the knot, with fuel.
  The loops take the fuel \<open>n\<close> themselves, one unit for each iteration.
\<close>

datatype Proc =
    ParsePrecedence nat
  | Rule ParseFn bool
  | Expression
  | Block
  | FunStatement
  | IfStatement
  | ReturnStatement
  | VarStatement
  | WhileStatement
  | Statement

type_synonym callee = "Proc \<Rightarrow> State \<Rightarrow> fault + State"

text \<open>The \<open>while\<close> loop of \<open>parsePrecedence\<close>.\<close>

primrec infixLoop :: "callee \<Rightarrow> nat \<Rightarrow> nat \<Rightarrow> bool \<Rightarrow> State \<Rightarrow> fault + State" where
  "infixLoop rec 0 prec canAssign s = Inl OutOfFuel"
| "infixLoop rec (Suc n) prec canAssign s =
     (if prec \<le> precedence (getRule (type (current s)))
      then (let s1 = advance s
            in case infixRule (getRule (type (previous s1))) of
                 None \<Rightarrow> Inl NullRule
               | Some infixFn \<Rightarrow>
                   (case rec (Rule infixFn canAssign) s1 of
                      Inl e \<Rightarrow> Inl e
                    | Inr s2 \<Rightarrow> infixLoop rec n prec canAssign s2))
      else Inr s)"

definition parsePrecedence :: "callee \<Rightarrow> nat \<Rightarrow> nat \<Rightarrow> State \<Rightarrow> fault + State" where
  "parsePrecedence rec n prec s =
     (let s1 = advance s
      in case prefixRule (getRule (type (previous s1))) of
           None \<Rightarrow> Inr (error (''Expected expression.'' @ [CHR 0x0A]) s1)
         | Some prefixFn \<Rightarrow>
             (let canAssign = (prec \<le> PREC_ASSIGNMENT)
              in case rec (Rule prefixFn canAssign) s1 of
                   Inl e \<Rightarrow> Inl e
                 | Inr s2 \<Rightarrow> infixLoop rec n prec canAssign s2))"

definition expression :: "callee \<Rightarrow> State \<Rightarrow> fault + State" where
  "expression rec s = rec (ParsePrecedence PREC_ASSIGNMENT) s"

definition grouping :: "callee \<Rightarrow> bool \<Rightarrow> State \<Rightarrow> fault + State" where
  "grouping rec canAssign s =
     (case rec Expression s of
        Inl e \<Rightarrow> Inl e
      | Inr s1 \<Rightarrow> Inr (consume TOKEN_RIGHT_PAREN ''Expect ')' after expression.'' s1))"

definition unary :: "callee \<Rightarrow> encoding \<Rightarrow> bool \<Rightarrow> State \<Rightarrow> fault + State" where
  "unary rec opc canAssign s =
     (let operatorType = type (previous s)
      in case rec (ParsePrecedence (PREC_UNARY + 1)) s of
           Inl e \<Rightarrow> Inl e
         | Inr s1 \<Rightarrow> unaryOp opc operatorType s1)"

definition binary :: "callee \<Rightarrow> encoding \<Rightarrow> bool \<Rightarrow> State \<Rightarrow> fault + State" where
  "binary rec opc canAssign s =
     (let operatorType = type (previous s);
          r = getRule operatorType
      in case rec (ParsePrecedence (precedence r + 1)) s of
           Inl e \<Rightarrow> Inl e
         | Inr s1 \<Rightarrow> binaryOp opc operatorType s1)"

text \<open>The \<open>do ... while (match(TOKEN_COMMA))\<close> loop of \<open>call\<close>; \<open>argCount\<close> is a \<open>uint8_t\<close>.\<close>

primrec callArgs :: "callee \<Rightarrow> nat \<Rightarrow> 8 word \<Rightarrow> State \<Rightarrow> fault + 8 word \<times> State" where
  "callArgs rec 0 argCount s = Inl OutOfFuel"
| "callArgs rec (Suc n) argCount s =
     (case rec Expression s of
        Inl e \<Rightarrow> Inl e
      | Inr s1 \<Rightarrow>
          (let (m, s2) = match TOKEN_COMMA s1
           in if m then callArgs rec n (argCount + 1) s2 else Inr (argCount + 1, s2)))"

definition call :: "callee \<Rightarrow> nat \<Rightarrow> encoding \<Rightarrow> bool \<Rightarrow> State \<Rightarrow> fault + State" where
  "call rec n opc canAssign s =
     (case (if \<not> check TOKEN_RIGHT_PAREN s then callArgs rec n 0 s else Inr (0, s)) of
        Inl e \<Rightarrow> Inl e
      | Inr (argCount, s1) \<Rightarrow>
          Inr (emitByte (opc OP_CALL_0 + argCount)
                 (consume TOKEN_RIGHT_PAREN ''Expect ')' after arguments.'' s1)))"

definition and_fn :: "callee \<Rightarrow> encoding \<Rightarrow> bool \<Rightarrow> State \<Rightarrow> fault + State" where
  "and_fn rec opc canAssign s =
     (let (endJump, s1) = emitJump (opc OP_JUMP_IF_FALSE) s;
          s2 = emitByte (opc OP_POP) s1
      in case rec (ParsePrecedence PREC_AND) s2 of
           Inl e \<Rightarrow> Inl e
         | Inr s3 \<Rightarrow> Inr (patchJump endJump s3))"

definition or_fn :: "callee \<Rightarrow> encoding \<Rightarrow> bool \<Rightarrow> State \<Rightarrow> fault + State" where
  "or_fn rec opc canAssign s =
     (let (elseJump, s1) = emitJump (opc OP_JUMP_IF_FALSE) s;
          (endJump, s2) = emitJump (opc OP_JUMP) s1;
          s3 = emitByte (opc OP_POP) (patchJump elseJump s2)
      in case rec (ParsePrecedence PREC_OR) s3 of
           Inl e \<Rightarrow> Inl e
         | Inr s4 \<Rightarrow> Inr (patchJump endJump s4))"

text \<open>\<open>canAssign && match(TOKEN_EQUAL)\<close>: \<open>match\<close> runs only when \<open>canAssign\<close> holds.\<close>

definition matchAssign :: "bool \<Rightarrow> State \<Rightarrow> bool \<times> State" where
  "matchAssign canAssign s = (if canAssign then match TOKEN_EQUAL s else (False, s))"

definition variable :: "callee \<Rightarrow> encoding \<Rightarrow> bool \<Rightarrow> State \<Rightarrow> fault + State" where
  "variable rec opc canAssign s =
     (let local = resolveLocal (previous s) s
      in if local \<noteq> -1
         then (let (m, s1) = matchAssign canAssign s
               in if m
                  then (case rec Expression s1 of
                          Inl e \<Rightarrow> Inl e
                        | Inr s2 \<Rightarrow> Inr (emitBytes (opc OP_SET_LOCAL) (u8 local) s2))
                  else Inr (emitBytes (opc OP_GET_LOCAL) (u8 local) s1))
         else (let (constant, s0) = nameConstant s;
                   (m, s1) = matchAssign canAssign s0
               in if m
                  then (case rec Expression s1 of
                          Inl e \<Rightarrow> Inl e
                        | Inr s2 \<Rightarrow> Inr (emitBytes (opc OP_SET_GLOBAL) constant s2))
                  else Inr (emitBytes (opc OP_GET_GLOBAL) constant s1)))"

text \<open>The call \<open>prefixRule(canAssign)\<close> or \<open>infixRule(canAssign)\<close> through the rule table.\<close>

definition runRule ::
  "callee \<Rightarrow> nat \<Rightarrow> encoding \<Rightarrow> ParseFn \<Rightarrow> bool \<Rightarrow> State \<Rightarrow> fault + State" where
  "runRule rec n opc fn canAssign s =
     (case fn of
        Grouping \<Rightarrow> grouping rec canAssign s
      | Call \<Rightarrow> call rec n opc canAssign s
      | Unary \<Rightarrow> unary rec opc canAssign s
      | Binary \<Rightarrow> binary rec opc canAssign s
      | Variable \<Rightarrow> variable rec opc canAssign s
      | String \<Rightarrow> Inr (string_fn opc s)
      | Number \<Rightarrow> Inr (number opc s)
      | And \<Rightarrow> and_fn rec opc canAssign s
      | Or \<Rightarrow> or_fn rec opc canAssign s
      | Boolean \<Rightarrow> Inr (boolean opc s)
      | Null \<Rightarrow> Inr (null_fn opc s))"

text \<open>The \<open>while\<close> loop of \<open>block\<close>.\<close>

primrec blockLoop :: "callee \<Rightarrow> nat \<Rightarrow> State \<Rightarrow> fault + State" where
  "blockLoop rec 0 s = Inl OutOfFuel"
| "blockLoop rec (Suc n) s =
     (if \<not> check TOKEN_RIGHT_BRACE s \<and> \<not> check TOKEN_EOF s
      then (case rec Statement s of
              Inl e \<Rightarrow> Inl e
            | Inr s1 \<Rightarrow> blockLoop rec n s1)
      else Inr s)"

definition block :: "callee \<Rightarrow> nat \<Rightarrow> State \<Rightarrow> fault + State" where
  "block rec n s =
     (case blockLoop rec n (consume TOKEN_LEFT_BRACE ''Expect '{' before block.'' s) of
        Inl e \<Rightarrow> Inl e
      | Inr s1 \<Rightarrow> Inr (consume TOKEN_RIGHT_BRACE ''Expect '}' after block.'' s1))"

definition funStatement :: "callee \<Rightarrow> nat \<Rightarrow> encoding \<Rightarrow> State \<Rightarrow> fault + State" where
  "funStatement rec n opc s =
     (let (nm, nameConst, s1) = parseVariable ''Expect function name.'' 0xff s;
          s2 = beginScope (beginCompiler s1);
          s3 = consume TOKEN_LEFT_PAREN ''Expect '(' after function name.'' s2
      in case (if \<not> check TOKEN_RIGHT_PAREN s3 then parameters opc n s3 else Inr s3) of
           Inl e \<Rightarrow> Inl e
         | Inr s4 \<Rightarrow>
             (case rec Block (consume TOKEN_RIGHT_PAREN ''Expect ')' after parameters.'' s4) of
                Inl e \<Rightarrow> Inl e
              | Inr s5 \<Rightarrow>
                  (let (fn, s6) = endCompiler opc (endScope opc s5)
                   in declareVariable opc nm nameConst (emitConstant opc (VFunction fn) s6))))"

definition ifStatement :: "callee \<Rightarrow> encoding \<Rightarrow> State \<Rightarrow> fault + State" where
  "ifStatement rec opc s =
     (case rec Expression (consume TOKEN_LEFT_PAREN ''Expect '(' after 'if'.'' s) of
        Inl e \<Rightarrow> Inl e
      | Inr s1 \<Rightarrow>
          (let s2 = beginScope (consume TOKEN_RIGHT_PAREN ''Expect ')' after condition.'' s1);
               (elseJump, s3) = emitJump (opc OP_JUMP_IF_FALSE) s2;
               s4 = emitByte (opc OP_POP) s3
           in case rec Statement s4 of
                Inl e \<Rightarrow> Inl e
              | Inr s5 \<Rightarrow>
                  (let (endJump, s6) = emitJump (opc OP_JUMP) s5;
                       s7 = emitByte (opc OP_POP) (patchJump elseJump s6);
                       (m, s8) = match TOKEN_ELSE s7
                   in case (if m then rec Statement s8 else Inr s8) of
                        Inl e \<Rightarrow> Inl e
                      | Inr s9 \<Rightarrow> Inr (endScope opc (patchJump endJump s9)))))"

definition returnStatement :: "callee \<Rightarrow> encoding \<Rightarrow> State \<Rightarrow> fault + State" where
  "returnStatement rec opc s =
     (let (m, s1) = match TOKEN_SEMICOLON s
      in case (if m then Inr (emitByte (opc OP_NULL) s1)
               else (case rec Expression s1 of
                       Inl e \<Rightarrow> Inl e
                     | Inr s2 \<Rightarrow>
                         Inr (consume TOKEN_SEMICOLON ''Expect ';' after return value.'' s2))) of
           Inl e \<Rightarrow> Inl e
         | Inr s3 \<Rightarrow> Inr (emitByte (opc OP_RETURN) s3))"

definition varStatement :: "callee \<Rightarrow> encoding \<Rightarrow> State \<Rightarrow> fault + State" where
  "varStatement rec opc s =
     (let (nm, constant, s1) = parseVariable ''Expect variable name.'' 0xff s
      in case rec Expression (consume TOKEN_EQUAL ''Expect '=' after variable name.'' s1) of
           Inl e \<Rightarrow> Inl e
         | Inr s2 \<Rightarrow>
             declareVariable opc nm constant
               (consume TOKEN_SEMICOLON ''Expect ';' after initializer.'' s2))"

definition whileStatement :: "callee \<Rightarrow> encoding \<Rightarrow> State \<Rightarrow> fault + State" where
  "whileStatement rec opc s =
     (let loopStart = codeCount s
      in case rec Expression (consume TOKEN_LEFT_PAREN ''Expect '(' after 'if'.'' s) of
           Inl e \<Rightarrow> Inl e
         | Inr s1 \<Rightarrow>
             (let s2 = beginScope (consume TOKEN_RIGHT_PAREN ''Expect ')' after condition.'' s1);
                  (exitJump, s3) = emitJump (opc OP_JUMP_IF_FALSE) s2;
                  s4 = emitByte (opc OP_POP) s3
              in case rec Statement s4 of
                   Inl e \<Rightarrow> Inl e
                 | Inr s5 \<Rightarrow> Inr (endScope opc (patchJump exitJump (emitLoop opc loopStart s5)))))"

definition statement :: "callee \<Rightarrow> encoding \<Rightarrow> State \<Rightarrow> fault + State" where
  "statement rec opc s =
     (let (mFun, s1) = match TOKEN_FUN s
      in if mFun then rec FunStatement s1
         else (let (mIf, s2) = match TOKEN_IF s1
               in if mIf then rec IfStatement s2
                  else (let (mReturn, s3) = match TOKEN_RETURN s2
                        in if mReturn then rec ReturnStatement s3
                           else (let (mVar, s4) = match TOKEN_VAR s3
                                 in if mVar then rec VarStatement s4
                                    else (let (mWhile, s5) = match TOKEN_WHILE s4
                                          in if mWhile then rec WhileStatement s5
                                             else if check TOKEN_LEFT_BRACE s5
                                             then (case rec Block (beginScope s5) of
                                                     Inl e \<Rightarrow> Inl e
                                                   | Inr s6 \<Rightarrow> Inr (endScope opc s6))
                                             else (case rec Expression s5 of
                                                     Inl e \<Rightarrow> Inl e
                                                   | Inr s6 \<Rightarrow>
                                                       Inr (consume TOKEN_SEMICOLON
                                                              ''Expect ';' after expression.''
                                                              (emitByte (opc OP_POP) s6))))))))"

text \<open>
  A call of a recursive function with fuel \<open>n + 1\<close> runs its body, in which every call
  has fuel \<open>n\<close>.
\<close>

primrec run :: "encoding \<Rightarrow> nat \<Rightarrow> Proc \<Rightarrow> State \<Rightarrow> fault + State" where
  "run opc 0 p s = Inl OutOfFuel"
| "run opc (Suc n) p s =
     (case p of
        ParsePrecedence prec \<Rightarrow> parsePrecedence (run opc n) n prec s
      | Rule fn canAssign \<Rightarrow> runRule (run opc n) n opc fn canAssign s
      | Expression \<Rightarrow> expression (run opc n) s
      | Block \<Rightarrow> block (run opc n) n s
      | FunStatement \<Rightarrow> funStatement (run opc n) n opc s
      | IfStatement \<Rightarrow> ifStatement (run opc n) opc s
      | ReturnStatement \<Rightarrow> returnStatement (run opc n) opc s
      | VarStatement \<Rightarrow> varStatement (run opc n) opc s
      | WhileStatement \<Rightarrow> whileStatement (run opc n) opc s
      | Statement \<Rightarrow> statement (run opc n) opc s)"

section \<open>The entry point\<close>

text \<open>The \<open>do statement(); while (!match(TOKEN_EOF))\<close> loop of \<open>compile\<close>.\<close>

primrec statements :: "encoding \<Rightarrow> nat \<Rightarrow> State \<Rightarrow> fault + State" where
  "statements opc 0 s = Inl OutOfFuel"
| "statements opc (Suc n) s =
     (case run opc n Statement s of
        Inl e \<Rightarrow> Inl e
      | Inr s1 \<Rightarrow>
          (let (m, s2) = match TOKEN_EOF s1
           in if \<not> m then statements opc n s2 else Inr s2))"

text \<open>
  The state \<open>compile\<close> starts in: \<open>parser\<close> and \<open>compiler\<close> have static storage, so they
  are zero (token kind 0 is \<open>TOKEN_LEFT_PAREN\<close>), and \<open>initScanner\<close> has set the scanner
  to the start of the source.
\<close>

definition initState :: "Token list \<Rightarrow> int \<Rightarrow> State" where
  "initState toks eofl =
     \<lparr>hadError = False,
      current = \<lparr>type = TOKEN_LEFT_PAREN, lexeme = [], line = 0\<rparr>,
      previous = \<lparr>type = TOKEN_LEFT_PAREN, lexeme = [], line = 0\<rparr>,
      compiler = [], pending = toks, eofLine = eofl, stderr = []\<rparr>"

text \<open>
  \<open>compile\<close>, on the tokens of the source and the line of its end, with fuel \<open>n\<close>: the
  function or \<open>NULL\<close>, and the state left behind.
\<close>

definition compile ::
  "encoding \<Rightarrow> nat \<Rightarrow> Token list \<Rightarrow> int \<Rightarrow> fault + ObjFunction option \<times> State" where
  "compile opc n toks eofl =
     (let s1 = beginCompiler (initState toks eofl);
          s2 = advance (s1\<lparr>hadError := False\<rparr>);
          (m, s3) = match TOKEN_EOF s2
      in case (if \<not> m then statements opc n s3 else Inr s3) of
           Inl e \<Rightarrow> Inl e
         | Inr s4 \<Rightarrow> Inr (endCompiler opc s4))"


section \<open>Reading the state, and the inputs of the examples\<close>

text \<open>The code and the constant pool of the function being compiled.\<close>

definition currentCode :: "State \<Rightarrow> 8 word list" where
  "currentCode s = (case compiler s of [] \<Rightarrow> [] | c # cs \<Rightarrow> code (function c))"

definition currentConstants :: "State \<Rightarrow> Value list" where
  "currentConstants s = (case compiler s of [] \<Rightarrow> [] | c # cs \<Rightarrow> constants (function c))"

text \<open>
  The result of \<open>compile\<close> as a list: the function it returns, if any; and the functions
  a function holds in its constant pool, which are the function declarations compiled
  inside it.
\<close>

definition compiled :: "fault + ObjFunction option \<times> State \<Rightarrow> ObjFunction list" where
  "compiled r = (case r of Inr (Some f, s) \<Rightarrow> [f] | _ \<Rightarrow> [])"

fun functionOf :: "Value \<Rightarrow> ObjFunction list" where
  "functionOf (VFunction (Some f)) = [f]"
| "functionOf v = []"

definition nestedFunctions :: "ObjFunction \<Rightarrow> ObjFunction list" where
  "nestedFunctions f = concat (map functionOf (constants f))"

text \<open>
  An encoding for the closed examples: the opcodes numbered in the order in which the
  spec lists them, with nine call opcodes. The theorems that are not examples hold for
  every encoding.
\<close>

definition specOpc :: encoding where
  "specOpc op =
     (case op of
        OP_CONSTANT \<Rightarrow> 0 | OP_NULL \<Rightarrow> 1 | OP_POP \<Rightarrow> 2 | OP_GET_LOCAL \<Rightarrow> 3
      | OP_SET_LOCAL \<Rightarrow> 4 | OP_GET_GLOBAL \<Rightarrow> 5 | OP_SET_GLOBAL \<Rightarrow> 6
      | OP_DEFINE_GLOBAL \<Rightarrow> 7 | OP_EQUAL \<Rightarrow> 8 | OP_GREATER \<Rightarrow> 9 | OP_LESS \<Rightarrow> 10
      | OP_ADD \<Rightarrow> 11 | OP_SUBTRACT \<Rightarrow> 12 | OP_MULTIPLY \<Rightarrow> 13 | OP_DIVIDE \<Rightarrow> 14
      | OP_NOT \<Rightarrow> 15 | OP_NEGATE \<Rightarrow> 16 | OP_JUMP \<Rightarrow> 17 | OP_JUMP_IF_FALSE \<Rightarrow> 18
      | OP_LOOP \<Rightarrow> 19 | OP_CALL_0 \<Rightarrow> 20 | OP_RETURN \<Rightarrow> 29)"

text \<open>A token on line 1, and an identifier on a given line.\<close>

definition tok :: "TokenType \<Rightarrow> string \<Rightarrow> Token" where
  "tok ty lx = \<lparr>type = ty, lexeme = lx, line = 1\<rparr>"

definition ident :: "string \<Rightarrow> int \<Rightarrow> Token" where
  "ident lx l = \<lparr>type = TOKEN_IDENTIFIER, lexeme = lx, line = l\<rparr>"

text \<open>The tokens of the source \<open>1;\<close>.\<close>

definition oneSource :: "Token list" where
  "oneSource = [tok TOKEN_NUMBER ''1'', tok TOKEN_SEMICOLON '';'']"

text \<open>The tokens of the source \<open>fun f(a, b) { return a + b; } f(1, 2);\<close>.\<close>

definition funSource :: "Token list" where
  "funSource =
     [tok TOKEN_FUN ''fun'', tok TOKEN_IDENTIFIER ''f'', tok TOKEN_LEFT_PAREN ''('',
      tok TOKEN_IDENTIFIER ''a'', tok TOKEN_COMMA '','', tok TOKEN_IDENTIFIER ''b'',
      tok TOKEN_RIGHT_PAREN '')'', tok TOKEN_LEFT_BRACE ''{'', tok TOKEN_RETURN ''return'',
      tok TOKEN_IDENTIFIER ''a'', tok TOKEN_PLUS ''+'', tok TOKEN_IDENTIFIER ''b'',
      tok TOKEN_SEMICOLON '';'', tok TOKEN_RIGHT_BRACE ''}'',
      tok TOKEN_IDENTIFIER ''f'', tok TOKEN_LEFT_PAREN ''('', tok TOKEN_NUMBER ''1'',
      tok TOKEN_COMMA '','', tok TOKEN_NUMBER ''2'', tok TOKEN_RIGHT_PAREN '')'',
      tok TOKEN_SEMICOLON '';'']"

text \<open>
  A function in progress with 65539 bytes of code, of which the bytes at offsets 1 and 2
  are the placeholder of a jump; and one whose constant pool holds 256 values.
\<close>

definition farState :: State where
  "farState =
     (initState [] 1)\<lparr>compiler :=
        [\<lparr>function = ObjFunction (replicate 65539 0xff) (replicate 65539 1) 131072 [] 0,
          locals = [], scopeDepth = -1\<rparr>]\<rparr>"

definition fullPoolState :: State where
  "fullPoolState =
     (initState [] 1)\<lparr>compiler :=
        [\<lparr>function = ObjFunction [] [] 0 (replicate 256 (VBool True)) 0,
          locals = [], scopeDepth = -1\<rparr>]\<rparr>"

text \<open>A fresh function after \<open>emitJump\<close> and one more byte.\<close>

definition jumpState :: State where
  "jumpState = emitByte 2 (snd (emitJump 18 (beginCompiler (initState [] 1))))"

text \<open>A frame at scope depth \<open>sd\<close> with one local \<open>a\<close>, declared on line 1 at depth 0.\<close>

definition scopeState :: "int \<Rightarrow> State" where
  "scopeState sd =
     (initState [] 9)\<lparr>compiler :=
        [\<lparr>function = newFunction, locals = [\<lparr>name = ident ''a'' 1, depth = 0\<rparr>],
          scopeDepth = sd\<rparr>]\<rparr>"

section \<open>The properties of the compiled functions\<close>

text \<open>
  All the functions of a compilation: a function and, recursively, the functions in its
  constant pool.
\<close>

fun allFunctions :: "ObjFunction \<Rightarrow> ObjFunction list"
and valueFunctions :: "Value \<Rightarrow> ObjFunction list" where
  "allFunctions (ObjFunction c l cap ks a) =
     ObjFunction c l cap ks a # concat (map valueFunctions ks)"
| "valueFunctions (VFunction (Some f)) = allFunctions f"
| "valueFunctions v = []"

text \<open>The code and the line table have the same length.\<close>

definition parallel :: "ObjFunction \<Rightarrow> bool" where
  "parallel f = (length (code f) = length (codeLines f))"

text \<open>The last two bytes of the code are \<open>OP_NULL, OP_RETURN\<close>.\<close>

definition endsNullReturn :: "encoding \<Rightarrow> ObjFunction \<Rightarrow> bool" where
  "endsNullReturn opc f =
     (2 \<le> length (code f) \<and>
      drop (length (code f) - 2) (code f) = [opc OP_NULL, opc OP_RETURN])"

text \<open>What holds of a function once \<open>endCompiler\<close> has returned it.\<close>

definition finished :: "encoding \<Rightarrow> ObjFunction \<Rightarrow> bool" where
  "finished opc f = (parallel f \<and> endsNullReturn opc f)"

text \<open>
  A frame in order: the arrays of its function are parallel, the functions in its constant
  pool are finished, and the depths of its locals do not decrease towards the top of the
  table (\<open>frameOK0\<close>) and are at most the scope depth (\<open>frameOK\<close>). A state is in order
  when all its frames are, and a result when it is a fault or a state in order.
\<close>

definition frameOK0 :: "encoding \<Rightarrow> Compiler \<Rightarrow> bool" where
  "frameOK0 opc c =
     (parallel (function c) \<and>
      list_all (finished opc) (concat (map valueFunctions (constants (function c)))) \<and>
      sorted (map depth (locals c)))"

definition frameOK :: "encoding \<Rightarrow> Compiler \<Rightarrow> bool" where
  "frameOK opc c = (frameOK0 opc c \<and> list_all (\<lambda>l. depth l \<le> scopeDepth c) (locals c))"

definition stateOK :: "encoding \<Rightarrow> State \<Rightarrow> bool" where
  "stateOK opc s = list_all (frameOK opc) (compiler s)"

definition okResult :: "encoding \<Rightarrow> fault + State \<Rightarrow> bool" where
  "okResult opc r = (case r of Inl e \<Rightarrow> True | Inr s \<Rightarrow> stateOK opc s)"

text \<open>The state in which \<open>compile\<close> calls \<open>statement\<close> for the source \<open>1;\<close>.\<close>

definition oneState :: State where
  "oneState = advance (beginCompiler (initState oneSource 1))"

section \<open>Evaluating the model\<close>

lemmas PREC_defs =
  PREC_NONE_def PREC_ASSIGNMENT_def PREC_OR_def PREC_AND_def PREC_EQUALITY_def
  PREC_COMPARISON_def PREC_TERM_def PREC_FACTOR_def PREC_UNARY_def PREC_CALL_def
  PREC_PRIMARY_def

lemmas model_defs =
  compile_def initState_def beginCompiler_def endCompiler_def newFunction_def
  emitByte_def emitBytes_def writeByte_def
  advance_def scanToken_def match_def check_def consume_def error_def errorAt_def
  statement_def funStatement_def returnStatement_def block_def expression_def
  parsePrecedence_def runRule_def variable_def binary_def call_def number_def
  parseVariable_def nameConstant_def addConstant_def emitConstant_def declareVariable_def
  beginScope_def endScope_def dropLocal_def incArity_def resolveLocal_def matchAssign_def
  binaryOp_def localCount_def MAX_LOCALS_def rule_def u8_def PREC_defs Let_def

lemma compile_funSource:
  "compile opc 30 funSource 1 =
     Inr (Some
           (ObjFunction
             [opc OP_CONSTANT, 2, opc OP_DEFINE_GLOBAL, 1, opc OP_GET_GLOBAL, 3,
              opc OP_CONSTANT, 4, opc OP_CONSTANT, 5, opc OP_CALL_0 + 2, opc OP_POP,
              opc OP_NULL, opc OP_RETURN]
             [1, 1, 1, 1, 1, 1, 1, 1, 1, 1, 1, 1, 1, 1] 16
             [VString ''f'',
              VFunction
                (Some
                  (ObjFunction
                    [opc OP_GET_LOCAL, 0, opc OP_GET_LOCAL, 1, opc OP_ADD, opc OP_RETURN,
                     opc OP_POP, opc OP_POP, opc OP_NULL, opc OP_RETURN]
                    [1, 1, 1, 1, 1, 1, 1, 1, 1, 1] 16 [] 2)),
              VString ''f'', VNumber ''1'', VNumber ''2'']
             0),
          \<lparr>hadError = False,
           current = \<lparr>type = TOKEN_EOF, lexeme = [], line = 1\<rparr>,
           previous = \<lparr>type = TOKEN_EOF, lexeme = [], line = 1\<rparr>,
           compiler = [], pending = [], eofLine = 1, stderr = []\<rparr>)"
  by (simp add: funSource_def tok_def eval_nat_numeral model_defs)

section \<open>Bytes of a 16-bit operand\<close>

lemma and_255: "(j::int) AND 0xff = j mod 256"
proof -
  have "j AND mask 8 = j mod 2 ^ 8"
    by (simp only: and_mask_mod_2p flip: take_bit_eq_mask) (simp add: take_bit_eq_mod)
  then show ?thesis by (simp add: mask_eq_exp_minus_1)
qed

lemma unat_u8: "unat (u8 j) = nat (j mod 256)"
  unfolding u8_def by (simp add: unat_eq_nat_uint uint_word_of_int)

lemma lo_byte: "unat (u8 (j AND 0xff)) = nat (j mod 256)"
  unfolding and_255 unat_u8 by simp

lemma u8_hi_lo:
  assumes "0 \<le> j" "j \<le> 65535"
  shows "int (unat (u8 (drop_bit 8 j AND 0xff))) * 256 + int (unat (u8 (j AND 0xff))) = j"
proof -
  have d: "drop_bit 8 j = j div 256" by (simp add: drop_bit_eq_div)
  have r: "j div 256 < 256" "0 \<le> j div 256" using assms by presburger+
  then have c: "(j div 256) mod 256 = j div 256" by simp
  have e: "int (nat (j div 256 mod 256)) = j div 256" using c r by simp
  have hi: "int (unat (u8 (drop_bit 8 j AND 0xff))) = j div 256"
    unfolding lo_byte d by (rule e)
  have lo: "int (unat (u8 (j AND 0xff))) = j mod 256"
    unfolding lo_byte by simp
  show ?thesis unfolding hi lo by simp
qed

section \<open>The emitter\<close>

lemma codeCount_emitByte:
  "compiler s = c # cs \<Longrightarrow> codeCount (emitByte b s) = codeCount s + 1"
  by (simp add: codeCount_def emitByte_def writeByte_def)

lemma currentCode_emitByte:
  "compiler s = c # cs \<Longrightarrow> currentCode (emitByte b s) = currentCode s @ [b]"
  by (simp add: currentCode_def emitByte_def writeByte_def)

lemma compiler_emitByte: "compiler s = c # cs \<Longrightarrow> \<exists>c'. compiler (emitByte b s) = c' # cs"
  by (simp add: emitByte_def)

lemma compiler_jumpState:
  "compiler jumpState =
     [\<lparr>function = ObjFunction [18, 0xff, 0xff, 2] [0, 0, 0, 0] 4 [] 0,
       locals = [], scopeDepth = -1\<rparr>]"
  by (simp add: jumpState_def emitJump_def emitByte_def writeByte_def beginCompiler_def
        initState_def newFunction_def Let_def)

text \<open>
  Claim C1. \<open>addConstant\<close> should return the pool index at which the value was just
  appended, that is the length of the pool before the append. The source increments
  \<open>count\<close> and returns it afterwards: the byte returned is the length of the pool after
  the append, one more than the index. Compiling \<open>1;\<close> emits \<open>OP_CONSTANT 1\<close> for the
  constant at index 0 of the pool.
\<close>

theorem addConstant_returns_count_after_append:
  "addConstant v (s\<lparr>compiler := c # cs\<rparr>) =
     (u8 (int (length (constants (function c))) + 1),
      s\<lparr>compiler :=
          c\<lparr>function := ObjFunction (code (function c)) (codeLines (function c))
                           (codeCapacity (function c)) (constants (function c) @ [v])
                           (arity (function c))\<rparr> # cs\<rparr>)
   \<and> compile opc 30 oneSource 1 =
       Inr (Some (ObjFunction [opc OP_CONSTANT, 1, opc OP_POP, opc OP_NULL, opc OP_RETURN]
                    [1, 1, 1, 1, 1] 8 [VNumber ''1''] 0),
            \<lparr>hadError = False,
             current = \<lparr>type = TOKEN_EOF, lexeme = [], line = 1\<rparr>,
             previous = \<lparr>type = TOKEN_EOF, lexeme = [], line = 1\<rparr>,
             compiler = [], pending = [], eofLine = 1, stderr = []\<rparr>)"
proof
  show "addConstant v (s\<lparr>compiler := c # cs\<rparr>) =
     (u8 (int (length (constants (function c))) + 1),
      s\<lparr>compiler :=
          c\<lparr>function := ObjFunction (code (function c)) (codeLines (function c))
                           (codeCapacity (function c)) (constants (function c) @ [v])
                           (arity (function c))\<rparr> # cs\<rparr>)"
    by (simp add: addConstant_def Let_def add.commute)
next
  show "compile opc 30 oneSource 1 =
       Inr (Some (ObjFunction [opc OP_CONSTANT, 1, opc OP_POP, opc OP_NULL, opc OP_RETURN]
                    [1, 1, 1, 1, 1] 8 [VNumber ''1''] 0),
            \<lparr>hadError = False,
             current = \<lparr>type = TOKEN_EOF, lexeme = [], line = 1\<rparr>,
             previous = \<lparr>type = TOKEN_EOF, lexeme = [], line = 1\<rparr>,
             compiler = [], pending = [], eofLine = 1, stderr = []\<rparr>)"
    by (simp add: oneSource_def tok_def eval_nat_numeral model_defs)
qed

text \<open>
  Claim C2. Exceeding a capacity limit should report a diagnostic and set \<open>hadError\<close>.
  The source has no such check (each place carries a \<open>TODO\<close>): adding a 257th constant
  and patching a jump over 65536 bytes report nothing and leave \<open>hadError\<close> clear; the
  byte returned for the 257th constant has wrapped around to 1.
\<close>

theorem capacity_limits_not_checked:
  "fst (addConstant v fullPoolState) = 1
   \<and> length (currentConstants (snd (addConstant v fullPoolState))) = 257
   \<and> \<not> hadError (snd (addConstant v fullPoolState))
   \<and> stderr (snd (addConstant v fullPoolState)) = []
   \<and> codeCount farState - 1 - 2 = 65536
   \<and> \<not> hadError (patchJump 1 farState)
   \<and> stderr (patchJump 1 farState) = []"
  by (simp add: addConstant_def fullPoolState_def patchJump_def farState_def initState_def
        currentConstants_def codeCount_def u8_def Let_def)

text \<open>
  Claim C4, as amended. \<open>patchJump(offset)\<close> on a placeholder inside the code (as every
  offset returned by \<open>emitJump\<close> is) keeps the length of the code, and when the distance
  \<open>codeCount - offset - 2\<close> is at most 65535 the bytes at \<open>offset\<close> and \<open>offset + 1\<close> are
  its big-endian encoding.
\<close>

theorem patchJump_encodes:
  assumes "compiler s = c # cs" and "0 \<le> offset" and "offset + 2 \<le> codeCount s"
    and "codeCount s - offset - 2 \<le> 65535"
  shows "length (currentCode (patchJump offset s)) = length (currentCode s) \<and>
         int (unat (currentCode (patchJump offset s) ! nat offset)) * 256
           + int (unat (currentCode (patchJump offset s) ! nat (offset + 1)))
         = int (length (currentCode (patchJump offset s))) - offset - 2"
proof -
  let ?j = "codeCount s - offset - 2"
  have j: "0 \<le> ?j" "?j \<le> 65535" using assms by simp_all
  have len: "int (length (code (function c))) = codeCount s"
    using assms(1) by (simp add: codeCount_def)
  have cc: "currentCode (patchJump offset s) =
        (code (function c))[nat offset := u8 (drop_bit 8 ?j AND 0xff),
                            nat (offset + 1) := u8 (?j AND 0xff)]"
    using assms len by (simp add: patchJump_def currentCode_def storeCode_def Let_def)
  have n: "nat offset < length (code (function c))"
    "nat (offset + 1) < length (code (function c))" "nat offset \<noteq> nat (offset + 1)"
    using assms len by linarith+
  have hi: "currentCode (patchJump offset s) ! nat offset = u8 (drop_bit 8 ?j AND 0xff)"
    unfolding cc using n by simp
  have lo: "currentCode (patchJump offset s) ! nat (offset + 1) = u8 (?j AND 0xff)"
    unfolding cc using n by simp
  have l: "length (currentCode (patchJump offset s)) = length (currentCode s)"
    unfolding cc using assms(1) by (simp add: currentCode_def)
  have "int (length (currentCode (patchJump offset s))) = codeCount s"
    unfolding l using assms(1) len by (simp add: currentCode_def)
  then show ?thesis using l u8_hi_lo [OF j] unfolding hi lo by simp
qed

theorem patchJump_encodes_witness:
  "length (currentCode (patchJump 1 jumpState)) = 4 \<and>
   int (unat (currentCode (patchJump 1 jumpState) ! 1)) * 256
     + int (unat (currentCode (patchJump 1 jumpState) ! 2)) = 1"
proof -
  note c = compiler_jumpState
  have cnt: "codeCount jumpState = 4" by (simp add: codeCount_def c)
  have cur: "currentCode jumpState = [18, 0xff, 0xff, 2]" by (simp add: currentCode_def c)
  show ?thesis
    using patchJump_encodes [of jumpState _ "[]" 1, OF c] by (simp add: cnt cur)
qed

theorem patchJump_far_counterexample:
  "int (unat (currentCode (patchJump 1 farState) ! 1)) * 256
     + int (unat (currentCode (patchJump 1 farState) ! 2))
   \<noteq> int (length (currentCode (patchJump 1 farState))) - 1 - 2"
  by (simp add: farState_def patchJump_def storeCode_def codeCount_def currentCode_def Let_def
        u8_def)

text \<open>
  Claim C5, as amended. \<open>emitLoop(loopStart)\<close> appends \<open>OP_LOOP\<close> and two operand bytes.
  With \<open>codeCount\<close> read once \<open>OP_LOOP\<close> has been appended, and the distance
  \<open>codeCount - loopStart + 2\<close> between 0 and 65535, the operand bytes are its big-endian
  encoding; the distance is that from the byte after the operand back to \<open>loopStart\<close>.
\<close>

theorem emitLoop_encodes:
  assumes "compiler s = c # cs" and "0 \<le> codeCount s + 1 - loopStart + 2"
    and "codeCount s + 1 - loopStart + 2 \<le> 65535"
  shows "\<exists>hi lo. currentCode (emitLoop opc loopStart s) = currentCode s @ [opc OP_LOOP, hi, lo] \<and>
           int (unat hi) * 256 + int (unat lo)
             = codeCount (emitByte (opc OP_LOOP) s) - loopStart + 2 \<and>
           int (unat hi) * 256 + int (unat lo)
             = int (length (currentCode (emitLoop opc loopStart s))) - loopStart"
proof -
  let ?s1 = "emitByte (opc OP_LOOP) s"
  let ?j = "codeCount ?s1 - loopStart + 2"
  have c1: "codeCount ?s1 = codeCount s + 1" by (rule codeCount_emitByte [OF assms(1)])
  have j: "0 \<le> ?j" "?j \<le> 65535" using assms c1 by simp_all
  obtain c1 where k1: "compiler ?s1 = c1 # cs" using compiler_emitByte [OF assms(1)] by blast
  let ?s2 = "emitByte (u8 (drop_bit 8 ?j AND 0xff)) ?s1"
  obtain c2 where k2: "compiler ?s2 = c2 # cs" using compiler_emitByte [OF k1] by blast
  have e: "emitLoop opc loopStart s = emitByte (u8 (?j AND 0xff)) ?s2"
    by (simp add: emitLoop_def Let_def)
  have cc: "currentCode (emitLoop opc loopStart s) =
      currentCode s @ [opc OP_LOOP, u8 (drop_bit 8 ?j AND 0xff), u8 (?j AND 0xff)]"
    unfolding e by (simp add: currentCode_emitByte [OF k2] currentCode_emitByte [OF k1]
        currentCode_emitByte [OF assms(1)])
  have len: "int (length (currentCode s)) = codeCount s"
    using assms(1) by (simp add: currentCode_def codeCount_def)
  have "int (length (currentCode (emitLoop opc loopStart s))) - loopStart = ?j"
    unfolding cc using len c1 by simp
  then show ?thesis using cc u8_hi_lo [OF j] by metis
qed

theorem emitLoop_encodes_witness:
  "\<exists>hi lo. currentCode (emitLoop specOpc 0 jumpState) = [18, 0xff, 0xff, 2, 19, hi, lo] \<and>
     int (unat hi) * 256 + int (unat lo) = 7"
proof -
  note c = compiler_jumpState
  have cnt: "codeCount jumpState = 4" by (simp add: codeCount_def c)
  have cur: "currentCode jumpState = [18, 0xff, 0xff, 2]" by (simp add: currentCode_def c)
  have l: "specOpc OP_LOOP = 19" by (simp add: specOpc_def)
  show ?thesis
    using emitLoop_encodes [of jumpState _ "[]" 0 specOpc, OF c]
    by (auto simp add: cnt cur l codeCount_emitByte [OF c])
qed

theorem emitLoop_far_counterexample:
  "int (unat (currentCode (emitLoop specOpc 0 farState) ! 65540)) * 256
     + int (unat (currentCode (emitLoop specOpc 0 farState) ! 65541))
   \<noteq> codeCount (emitByte (specOpc OP_LOOP) farState) - 0 + 2"
  by (simp add: farState_def emitLoop_def emitByte_def writeByte_def codeCount_def
        currentCode_def Let_def u8_def nth_append)


section \<open>Declaring and resolving locals\<close>

lemma compiler_scanLocals: "compiler (scanLocals nm sd ls s) = compiler s"
  by (induction ls arbitrary: s) (simp_all add: errorAt_def)

lemma stderr_scanLocals:
  "stderr (scanLocals nm sd ls s) =
     stderr s @ replicate (length (filter (\<lambda>l. lexeme (name l) = lexeme nm)
                                     (takeWhile (\<lambda>l. sd \<le> depth l) ls)))
                  (line nm, ''Variable with this name already declared in this scope.'')"
proof (induction ls arbitrary: s)
  case Nil
  then show ?case by simp
next
  case (Cons l ls)
  show ?case
  proof (cases "depth l < sd")
    case True
    then show ?thesis by simp
  next
    case False
    then have "sd \<le> depth l" by simp
    then show ?thesis
      using False by (simp add: Cons.IH errorAt_def replicate_app_Cons_same eq_commute)
  qed
qed

lemma hadError_scanLocals:
  "hadError (scanLocals nm sd ls s) =
     (hadError s \<or>
      (\<exists>l \<in> set (takeWhile (\<lambda>l. sd \<le> depth l) ls). lexeme (name l) = lexeme nm))"
proof (induction ls arbitrary: s)
  case Nil
  then show ?case by simp
next
  case (Cons l ls)
  show ?case
  proof (cases "depth l < sd")
    case True
    then show ?thesis by simp
  next
    case False
    then have "sd \<le> depth l" by simp
    then show ?thesis
      using False by (auto simp add: Cons.IH errorAt_def)
  qed
qed

text \<open>
  In a table whose depths do not decrease towards the top, the locals the scan looks at
  are all the locals of the current depth or deeper.
\<close>

lemma takeWhile_rev_sorted:
  "sorted (map depth xs) \<Longrightarrow>
   takeWhile (\<lambda>l. sd \<le> depth l) (rev xs) = filter (\<lambda>l. sd \<le> depth l) (rev xs)"
proof (induction xs rule: rev_induct)
  case Nil
  then show ?case by simp
next
  case (snoc x xs)
  from snoc.prems have s: "sorted (map depth xs)" and le: "\<forall>y \<in> set xs. depth y \<le> depth x"
    by (auto simp add: sorted_append)
  show ?case
  proof (cases "sd \<le> depth x")
    case True
    then show ?thesis using snoc.IH [OF s] by simp
  next
    case False
    then have "\<forall>y \<in> set xs. \<not> sd \<le> depth y" using le by fastforce
    then have "filter (\<lambda>l. sd \<le> depth l) (rev xs) = []" by (simp add: filter_empty_conv)
    then show ?thesis using False by simp
  qed
qed

lemma compiler_scopeState:
  "compiler (scopeState sd) =
     [\<lparr>function = newFunction, locals = [\<lparr>name = ident ''a'' 1, depth = 0\<rparr>],
       scopeDepth = sd\<rparr>]"
  by (simp add: scopeState_def)

text \<open>
  Claim C8. Declaring a local in a scope (\<open>scopeDepth\<close> not -1) reports the diagnostic
  at the line of the name once for every local of the same lexeme declared at the
  current depth or deeper, so at least once when there is one; and when every local of
  that lexeme is in an outer scope, nothing is reported. The depths in the table do not
  decrease towards the top, as in every state the compiler reaches
  (\<open>run_invariant\<close> and \<open>stateOK_locals_sorted\<close> below).
\<close>

theorem declareVariable_duplicate:
  assumes "compiler s = c # cs" and "scopeDepth c \<noteq> -1"
    and "declareVariable opc nm k s = Inr s'" and "sorted (map depth (locals c))"
  shows "stderr s' = stderr s @
           replicate (length (filter (\<lambda>l. scopeDepth c \<le> depth l \<and> lexeme (name l) = lexeme nm)
                                (locals c)))
             (line nm, ''Variable with this name already declared in this scope.'')
         \<and> ((\<exists>l \<in> set (locals c). scopeDepth c \<le> depth l \<and> lexeme (name l) = lexeme nm) \<longrightarrow>
              hadError s' \<and>
              (line nm, ''Variable with this name already declared in this scope.'')
                \<in> set (stderr s'))
         \<and> ((\<forall>l \<in> set (locals c). lexeme (name l) = lexeme nm \<longrightarrow> depth l < scopeDepth c) \<longrightarrow>
              stderr s' = stderr s \<and> hadError s' = hadError s)"
proof -
  let ?P = "\<lambda>l. scopeDepth c \<le> depth l"
  let ?Q = "\<lambda>l. lexeme (name l) = lexeme nm"
  let ?m = "(line nm, ''Variable with this name already declared in this scope.'')"
  let ?s1 = "scanLocals nm (scopeDepth c) (rev (locals c)) s"
  have s': "stderr s' = stderr ?s1" "hadError s' = hadError ?s1"
    using assms(1-3) by (auto simp add: declareVariable_def Let_def split: if_splits)
  have tw: "takeWhile ?P (rev (locals c)) = filter ?P (rev (locals c))"
    by (rule takeWhile_rev_sorted [OF assms(4)])
  have "length (filter ?Q (filter ?P (rev (locals c))))
          = length (filter (\<lambda>l. ?P l \<and> ?Q l) (locals c))"
    by (simp add: conj_commute flip: rev_filter)
  then have A: "stderr s' = stderr s @ replicate (length (filter (\<lambda>l. ?P l \<and> ?Q l) (locals c))) ?m"
    unfolding s' stderr_scanLocals tw by simp
  have B: "hadError s' = (hadError s \<or> (\<exists>l \<in> set (locals c). ?P l \<and> ?Q l))"
    unfolding s' hadError_scanLocals tw by auto
  have C: "(\<exists>l \<in> set (locals c). ?P l \<and> ?Q l) \<longrightarrow> ?m \<in> set (stderr s')"
  proof
    assume "\<exists>l \<in> set (locals c). ?P l \<and> ?Q l"
    then have "filter (\<lambda>l. ?P l \<and> ?Q l) (locals c) \<noteq> []" by (simp add: filter_empty_conv)
    then show "?m \<in> set (stderr s')" unfolding A by simp
  qed
  have D: "(\<forall>l \<in> set (locals c). ?Q l \<longrightarrow> depth l < scopeDepth c) \<longrightarrow>
             stderr s' = stderr s \<and> hadError s' = hadError s"
  proof
    assume h: "\<forall>l \<in> set (locals c). ?Q l \<longrightarrow> depth l < scopeDepth c"
    then have "filter (\<lambda>l. ?P l \<and> ?Q l) (locals c) = []" by (auto simp add: filter_empty_conv)
    moreover have "\<not> (\<exists>l \<in> set (locals c). ?P l \<and> ?Q l)" using h by fastforce
    ultimately show "stderr s' = stderr s \<and> hadError s' = hadError s" using A B by auto
  qed
  show ?thesis using A B C D by blast
qed

theorem declareVariable_duplicate_witness:
  "(\<exists>s'. declareVariable specOpc (ident ''a'' 2) 0 (scopeState 0) = Inr s' \<and>
      hadError s' \<and>
      stderr s' = [(2, ''Variable with this name already declared in this scope.'')]) \<and>
   (\<exists>s'. declareVariable specOpc (ident ''a'' 2) 0 (scopeState 1) = Inr s' \<and>
      \<not> hadError s' \<and> stderr s' = [])"
proof -
  note c = compiler_scopeState
  obtain s0 where s0: "declareVariable specOpc (ident ''a'' 2) 0 (scopeState 0) = Inr s0"
    by (simp add: declareVariable_def scopeState_def localCount_def MAX_LOCALS_def)
  obtain s1 where s1: "declareVariable specOpc (ident ''a'' 2) 0 (scopeState 1) = Inr s1"
    by (simp add: declareVariable_def scopeState_def localCount_def MAX_LOCALS_def)
  have e: "stderr (scopeState 0) = []" "stderr (scopeState 1) = []"
     "\<not> hadError (scopeState 0)" "\<not> hadError (scopeState 1)"
    by (simp_all add: scopeState_def initState_def)
  have "hadError s0 \<and> stderr s0 = [(2, ''Variable with this name already declared in this scope.'')]"
    using declareVariable_duplicate [OF c _ s0] by (simp add: e ident_def)
  moreover have "\<not> hadError s1 \<and> stderr s1 = []"
    using declareVariable_duplicate [OF c _ s1] by (simp add: e ident_def)
  ultimately show ?thesis using s0 s1 by simp
qed

text \<open>
  Claim C10. Declaring a local in a scope appends the new entry to the table and
  increments \<open>localCount\<close>, whether or not the redeclaration diagnostic was reported
  (nothing in the hypotheses excludes it), and \<open>resolveLocal\<close> on that lexeme then
  returns the index of the new, topmost entry. The table has room: \<open>localCount\<close> is
  below \<open>MAX_LOCALS\<close>.
\<close>

theorem declareVariable_appends:
  assumes "compiler s = c # cs" and "scopeDepth c \<noteq> -1" and "localCount c < MAX_LOCALS"
    and "lexeme tk = lexeme nm"
  shows "\<exists>s' c'. declareVariable opc nm k s = Inr s' \<and> compiler s' = c' # cs \<and>
           locals c' = locals c @ [\<lparr>name = nm, depth = scopeDepth c\<rparr>] \<and>
           localCount c' = localCount c + 1 \<and>
           resolveLocal tk s' = localCount c"
  using assms
  by (simp add: declareVariable_def Let_def compiler_scanLocals localCount_def resolveLocal_def)

theorem declareVariable_appends_witness:
  "\<exists>s' c'. declareVariable specOpc (ident ''a'' 2) 0 (scopeState 0) = Inr s' \<and>
     compiler s' = [c'] \<and>
     locals c' = [\<lparr>name = ident ''a'' 1, depth = 0\<rparr>, \<lparr>name = ident ''a'' 2, depth = 0\<rparr>] \<and>
     localCount c' = 2 \<and> resolveLocal (ident ''a'' 5) s' = 1 \<and>
     stderr s' = [(2, ''Variable with this name already declared in this scope.'')]"
proof -
  note c = compiler_scopeState
  have d: "\<And>s'. declareVariable specOpc (ident ''a'' 2) 0 (scopeState 0) = Inr s' \<Longrightarrow>
     stderr s' = [(2, ''Variable with this name already declared in this scope.'')]"
    by (auto simp add: declareVariable_def scopeState_def localCount_def MAX_LOCALS_def
          initState_def ident_def errorAt_def)
  show ?thesis
    using declareVariable_appends
            [of "scopeState 0" _ "[]" "ident ''a'' 5" "ident ''a'' 2" specOpc 0, OF c] d
    by (auto simp add: localCount_def MAX_LOCALS_def ident_def)
qed

section \<open>Compiling the examples\<close>

text \<open>
  Claim C9. Compiling a source without tokens succeeds, whatever the fuel and the
  encoding: no diagnostic, and a function whose code is \<open>OP_NULL, OP_RETURN\<close>, with
  arity 0 and an empty constant pool.
\<close>

theorem compile_empty:
  "compile opc n [] l =
     Inr (Some (ObjFunction [opc OP_NULL, opc OP_RETURN] [l, l] 4 [] 0),
          \<lparr>hadError = False,
           current = \<lparr>type = TOKEN_EOF, lexeme = [], line = l\<rparr>,
           previous = \<lparr>type = TOKEN_EOF, lexeme = [], line = l\<rparr>,
           compiler = [], pending = [], eofLine = l, stderr = []\<rparr>)"
  by (simp add: compile_def initState_def beginCompiler_def endCompiler_def newFunction_def
        emitByte_def emitBytes_def writeByte_def advance_def scanToken_def match_def check_def)

text \<open>
  Claim C3, as amended. Compiling \<open>fun f(a, b) { return a + b; } f(1, 2);\<close> succeeds.
  The body of the inner function is \<open>GET_LOCAL 0, GET_LOCAL 1, ADD, RETURN\<close>, then one
  \<open>POP\<close> for each of the two parameters (emitted by \<open>endScope\<close>), then \<open>NULL, RETURN\<close>.
  The outer function is \<open>CONSTANT, DEFINE_GLOBAL, GET_GLOBAL, CONSTANT, CONSTANT, CALL_2,
  POP, NULL, RETURN\<close>, each of the first five with one operand byte, over the constant
  pool \<open>"f"\<close>, the inner function, \<open>"f"\<close>, 1, 2.
\<close>

theorem compile_fun_example:
  "\<exists>k1 k2 k3 k4 k5 ls cap ls' cap' s.
     compile opc 30 funSource 1 =
       Inr (Some
             (ObjFunction
               [opc OP_CONSTANT, k1, opc OP_DEFINE_GLOBAL, k2, opc OP_GET_GLOBAL, k3,
                opc OP_CONSTANT, k4, opc OP_CONSTANT, k5, opc OP_CALL_0 + 2, opc OP_POP,
                opc OP_NULL, opc OP_RETURN]
               ls cap
               [VString ''f'',
                VFunction
                  (Some
                    (ObjFunction
                      [opc OP_GET_LOCAL, 0, opc OP_GET_LOCAL, 1, opc OP_ADD, opc OP_RETURN,
                       opc OP_POP, opc OP_POP, opc OP_NULL, opc OP_RETURN]
                      ls' cap' [] 2)),
                VString ''f'', VNumber ''1'', VNumber ''2'']
               0),
            s)
     \<and> \<not> hadError s \<and> stderr s = []"
  unfolding compile_funSource by simp

theorem compile_fun_counterexample:
  "map code (concat (map nestedFunctions (compiled (compile specOpc 30 funSource 1))))
   \<noteq> [[specOpc OP_GET_LOCAL, 0, specOpc OP_GET_LOCAL, 1, specOpc OP_ADD,
        specOpc OP_RETURN, specOpc OP_NULL, specOpc OP_RETURN]]"
  unfolding compile_funSource by (simp add: compiled_def nestedFunctions_def)


section \<open>The frames stay in order\<close>

lemma allFunctions_eq: "allFunctions f = f # concat (map valueFunctions (constants f))"
  by (cases f) simp

lemma okResult_Inl [simp]: "okResult opc (Inl e)"
  by (simp add: okResult_def)

lemma okResult_Inr [simp]: "okResult opc (Inr s) = stateOK opc s"
  by (simp add: okResult_def)

lemma okResult_bind:
  assumes "okResult opc r" and "\<And>s1. stateOK opc s1 \<Longrightarrow> okResult opc (k s1)"
  shows "okResult opc (case r of Inl e \<Rightarrow> Inl e | Inr s1 \<Rightarrow> k s1)"
  using assms by (cases r) simp_all

subsection \<open>The token stream\<close>

lemma compiler_advance [simp]: "compiler (advance s) = compiler s"
  by (simp add: advance_def scanToken_def Let_def split: list.splits)

lemma compiler_errorAt [simp]: "compiler (errorAt l m s) = compiler s"
  by (simp add: errorAt_def)

lemma compiler_error [simp]: "compiler (error m s) = compiler s"
  by (simp add: error_def)

lemma compiler_consume [simp]: "compiler (consume ty m s) = compiler s"
  by (simp add: consume_def)

lemma compiler_match [simp]: "compiler (snd (match ty s)) = compiler s"
  by (simp add: match_def)

lemma compiler_matchAssign [simp]: "compiler (snd (matchAssign b s)) = compiler s"
  by (simp add: matchAssign_def)

lemma stateOK_advance [simp]: "stateOK opc (advance s) = stateOK opc s"
  by (simp add: stateOK_def)

lemma stateOK_error [simp]: "stateOK opc (error m s) = stateOK opc s"
  by (simp add: stateOK_def)

lemma stateOK_consume [simp]: "stateOK opc (consume ty m s) = stateOK opc s"
  by (simp add: stateOK_def)

lemma stateOK_match [simp]: "stateOK opc (snd (match ty s)) = stateOK opc s"
  by (simp add: stateOK_def)

lemma stateOK_matchAssign [simp]: "stateOK opc (snd (matchAssign b s)) = stateOK opc s"
  by (simp add: stateOK_def)

subsection \<open>The emitter\<close>

lemma parallel_writeByte: "parallel f \<Longrightarrow> parallel (writeByte b l f)"
  by (simp add: parallel_def writeByte_def)

lemma parallel_storeCode: "parallel f \<Longrightarrow> parallel (storeCode i b f)"
  by (simp add: parallel_def storeCode_def)

lemma constants_writeByte [simp]: "constants (writeByte b l f) = constants f"
  by (simp add: writeByte_def)

lemma constants_storeCode [simp]: "constants (storeCode i b f) = constants f"
  by (simp add: storeCode_def)

text \<open>A change of the function of the current frame that keeps it in order.\<close>

lemma stateOK_function:
  assumes "stateOK opc s" and "compiler s = c # cs"
    and "parallel (function c) \<Longrightarrow> parallel f" and "constants f = constants (function c)"
  shows "stateOK opc (s\<lparr>compiler := c\<lparr>function := f\<rparr> # cs\<rparr>)"
  using assms by (simp add: stateOK_def frameOK_def frameOK0_def)

lemma stateOK_emitByte [simp]: "stateOK opc s \<Longrightarrow> stateOK opc (emitByte b s)"
  by (auto simp add: emitByte_def split: list.splits intro!: stateOK_function parallel_writeByte)

lemma stateOK_emitBytes [simp]: "stateOK opc s \<Longrightarrow> stateOK opc (emitBytes a b s)"
  by (simp add: emitBytes_def)

lemma stateOK_emitLoop [simp]: "stateOK opc s \<Longrightarrow> stateOK opc (emitLoop opc start s)"
  by (simp add: emitLoop_def Let_def)

lemma stateOK_emitJump [simp]: "stateOK opc s \<Longrightarrow> stateOK opc (snd (emitJump b s))"
  by (simp add: emitJump_def Let_def)

lemma stateOK_patchJump [simp]: "stateOK opc s \<Longrightarrow> stateOK opc (patchJump off s)"
  by (auto simp add: patchJump_def Let_def split: list.splits
        intro!: stateOK_function parallel_storeCode)

lemma stateOK_incArity [simp]: "stateOK opc s \<Longrightarrow> stateOK opc (incArity s)"
  by (auto simp add: incArity_def Let_def parallel_def split: list.splits intro!: stateOK_function)


subsection \<open>Frames and scopes\<close>

lemma stateOK_beginCompiler [simp]: "stateOK opc s \<Longrightarrow> stateOK opc (beginCompiler s)"
  by (simp add: beginCompiler_def stateOK_def frameOK_def frameOK0_def parallel_def
        newFunction_def)

lemma stateOK_beginScope [simp]: "stateOK opc s \<Longrightarrow> stateOK opc (beginScope s)"
proof -
  assume a: "stateOK opc s"
  show ?thesis
  proof (cases "compiler s")
    case Nil
    then show ?thesis using a by (simp add: beginScope_def)
  next
    case (Cons c cs)
    have "list_all (\<lambda>l. depth l \<le> scopeDepth c) (locals c)"
      using a Cons by (simp add: stateOK_def frameOK_def)
    then have "list_all (\<lambda>l. depth l \<le> scopeDepth c + 1) (locals c)"
      by (induction "locals c") (auto simp add: list_all_iff)
    then show ?thesis
      using a Cons by (simp add: beginScope_def stateOK_def frameOK_def frameOK0_def)
  qed
qed

text \<open>
  The loop of \<open>endScope\<close> leaves a table whose locals are all at the scope depth or
  above it, when it may run once for every local.
\<close>

lemma frameOK0_pop:
  "frameOK0 opc c \<Longrightarrow>
   frameOK0 opc (c\<lparr>function := writeByte b l (function c), locals := butlast (locals c)\<rparr>)"
  by (simp add: frameOK0_def parallel_writeByte map_butlast sorted_butlast)

lemma sorted_last_bound:
  assumes "sorted (map depth ls)" and "ls \<noteq> []" and "depth (last ls) \<le> sd"
  shows "list_all (\<lambda>l. depth l \<le> sd) ls"
proof -
  obtain xs x where ls: "ls = xs @ [x]" using assms(2) by (metis append_butlast_last_id)
  then have "\<forall>y \<in> set xs. depth y \<le> depth x" using assms(1) by (auto simp add: sorted_append)
  then show ?thesis using assms(3) ls by (auto simp add: list_all_iff)
qed

lemma popLocals_frame:
  assumes "compiler s = c # cs" and "frameOK0 opc c" and "length (locals c) \<le> k"
  shows "\<exists>c'. compiler (popLocals k opc s) = c' # cs \<and> frameOK opc c'"
  using assms
proof (induction k arbitrary: s c)
  case 0
  then show ?case by (simp add: frameOK_def)
next
  case (Suc k)
  show ?case
  proof (cases "localCount c > 0 \<and> depth (last (locals c)) > scopeDepth c")
    case True
    let ?c = "c\<lparr>function := writeByte (opc OP_POP) (line (previous s)) (function c),
                 locals := butlast (locals c)\<rparr>"
    have c: "compiler (dropLocal (emitByte (opc OP_POP) s)) = ?c # cs"
      using Suc.prems(1) by (simp add: dropLocal_def emitByte_def)
    have l: "length (locals ?c) \<le> k" using Suc.prems(3) by simp
    have "popLocals (Suc k) opc s = popLocals k opc (dropLocal (emitByte (opc OP_POP) s))"
      using True Suc.prems(1) by simp
    then show ?thesis
      using Suc.IH [OF c frameOK0_pop [OF Suc.prems(2)] l] by simp
  next
    case False
    then have p: "popLocals (Suc k) opc s = s" using Suc.prems(1) by auto
    have "list_all (\<lambda>l. depth l \<le> scopeDepth c) (locals c)"
    proof (cases "locals c = []")
      case True
      then show ?thesis by simp
    next
      case ne: False
      then have "depth (last (locals c)) \<le> scopeDepth c"
        using False by (simp add: localCount_def)
      then show ?thesis
        using sorted_last_bound [OF _ ne] Suc.prems(2) by (simp add: frameOK0_def)
    qed
    then show ?thesis using p Suc.prems by (simp add: frameOK_def)
  qed
qed

lemma stateOK_endScope [simp]: "stateOK opc s \<Longrightarrow> stateOK opc (endScope opc s)"
proof -
  assume a: "stateOK opc s"
  show ?thesis
  proof (cases "compiler s")
    case Nil
    then show ?thesis using a by (simp add: endScope_def)
  next
    case (Cons c cs)
    let ?s1 = "s\<lparr>compiler := c\<lparr>scopeDepth := scopeDepth c - 1\<rparr> # cs\<rparr>"
    have f: "frameOK0 opc (c\<lparr>scopeDepth := scopeDepth c - 1\<rparr>)"
      using a Cons by (simp add: stateOK_def frameOK_def frameOK0_def)
    have "\<exists>c'. compiler (popLocals (length (locals c)) opc ?s1) = c' # cs \<and> frameOK opc c'"
      by (rule popLocals_frame [OF _ f]) simp_all
    moreover have "endScope opc s = popLocals (length (locals c)) opc ?s1"
      using Cons by (simp add: endScope_def Let_def)
    ultimately show ?thesis using a Cons by (auto simp add: stateOK_def)
  qed
qed

subsection \<open>Constants and variables\<close>

lemma stateOK_addConstant:
  assumes "stateOK opc s" and "list_all (finished opc) (valueFunctions v)"
  shows "stateOK opc (snd (addConstant v s))"
  using assms
  by (auto simp add: addConstant_def Let_def stateOK_def frameOK_def frameOK0_def parallel_def
        split: list.splits)

lemma stateOK_nameConstant [simp]: "stateOK opc s \<Longrightarrow> stateOK opc (snd (nameConstant s))"
  by (simp add: nameConstant_def stateOK_addConstant)

lemma stateOK_emitConstant:
  assumes "stateOK opc s" and "list_all (finished opc) (valueFunctions v)"
  shows "stateOK opc (emitConstant opc v s)"
  using assms by (simp add: emitConstant_def split_beta stateOK_addConstant)

lemma stateOK_parseVariable [simp]:
  "stateOK opc s \<Longrightarrow> stateOK opc (snd (snd (parseVariable m k s)))"
  by (simp add: parseVariable_def Let_def split_beta split: list.splits)

lemma stateOK_scanLocals [simp]: "stateOK opc (scanLocals nm sd ls s) = stateOK opc s"
  by (induction ls arbitrary: s) (simp_all add: stateOK_def errorAt_def)

lemma okResult_declareVariable [simp]:
  "stateOK opc s \<Longrightarrow> okResult opc (declareVariable opc nm k s)"
proof -
  assume a: "stateOK opc s"
  show ?thesis
  proof (cases "compiler s")
    case Nil
    then show ?thesis using a by (simp add: declareVariable_def)
  next
    case (Cons c cs)
    have f: "frameOK opc c" "list_all (frameOK opc) cs"
      using a Cons by (simp_all add: stateOK_def)
    have "frameOK opc (c\<lparr>locals := locals c @ [\<lparr>name = nm, depth = scopeDepth c\<rparr>]\<rparr>)"
      using f(1) by (auto simp add: frameOK_def frameOK0_def sorted_append list_all_iff)
    then have "stateOK opc
        (scanLocals nm (scopeDepth c) (rev (locals c)) s
           \<lparr>compiler := c\<lparr>locals := locals c @ [\<lparr>name = nm, depth = scopeDepth c\<rparr>]\<rparr> # cs\<rparr>)"
      using f(2) by (simp add: stateOK_def)
    then show ?thesis
      using a Cons by (simp add: declareVariable_def Let_def)
  qed
qed

lemma okResult_parameters [simp]: "stateOK opc s \<Longrightarrow> okResult opc (parameters opc n s)"
proof (induction n arbitrary: s)
  case 0
  then show ?case by simp
next
  case (Suc n)
  show ?case
    using Suc.prems
    by (auto simp add: split_beta Let_def Suc.IH intro!: okResult_bind)
qed

lemma endCompiler_ok:
  assumes "stateOK opc s"
  shows "stateOK opc (snd (endCompiler opc s)) \<and>
         list_all (finished opc) (valueFunctions (VFunction (fst (endCompiler opc s))))"
proof (cases "compiler s")
  case Nil
  then show ?thesis using assms by (simp add: endCompiler_def emitBytes_def emitByte_def)
next
  case (Cons c cs)
  let ?f = "writeByte (opc OP_RETURN) (line (previous s))
              (writeByte (opc OP_NULL) (line (previous s)) (function c))"
  have e: "endCompiler opc s =
      (if hadError s then None else Some ?f, s\<lparr>compiler := cs\<rparr>)"
    using Cons by (simp add: endCompiler_def emitBytes_def emitByte_def)
  have f: "frameOK opc c" "list_all (frameOK opc) cs"
    using assms Cons by (simp_all add: stateOK_def)
  have "parallel ?f"
    using f(1) by (simp add: frameOK_def frameOK0_def parallel_writeByte)
  moreover have "endsNullReturn opc ?f"
    by (simp add: endsNullReturn_def writeByte_def)
  ultimately have "finished opc ?f"
    by (simp add: finished_def)
  moreover have "list_all (finished opc) (concat (map valueFunctions (constants ?f)))"
    using f(1) by (simp add: frameOK_def frameOK0_def)
  ultimately have "list_all (finished opc) (allFunctions ?f)"
    by (simp add: allFunctions_eq [of ?f])
  then show ?thesis using f(2) by (simp add: e stateOK_def)
qed

subsection \<open>Parse functions\<close>

lemma stateOK_boolean [simp]: "stateOK opc s \<Longrightarrow> stateOK opc (boolean opc s)"
  by (simp add: boolean_def stateOK_emitConstant)

lemma stateOK_null_fn [simp]: "stateOK opc s \<Longrightarrow> stateOK opc (null_fn opc s)"
  by (simp add: null_fn_def)

lemma stateOK_number [simp]: "stateOK opc s \<Longrightarrow> stateOK opc (number opc s)"
  by (simp add: number_def stateOK_emitConstant)

lemma stateOK_string_fn [simp]: "stateOK opc s \<Longrightarrow> stateOK opc (string_fn opc s)"
  by (simp add: string_fn_def Let_def stateOK_emitConstant)

lemma okResult_binaryOp [simp]: "stateOK opc s \<Longrightarrow> okResult opc (binaryOp opc ty s)"
  by (simp add: binaryOp_def)

lemma okResult_unaryOp [simp]: "stateOK opc s \<Longrightarrow> okResult opc (unaryOp opc ty s)"
  by (simp add: unaryOp_def)


subsection \<open>The recursive functions\<close>

lemma okResult_infixLoop:
  assumes "\<And>p s. stateOK opc s \<Longrightarrow> okResult opc (rec p s)" and "stateOK opc s"
  shows "okResult opc (infixLoop rec n prec canAssign s)"
  using assms(2)
proof (induction n arbitrary: s)
  case 0
  then show ?case by simp
next
  case (Suc n)
  show ?case
    using Suc.prems
    by (auto simp add: Let_def Suc.IH assms(1) split: option.splits intro!: okResult_bind)
qed

lemma okResult_parsePrecedence:
  assumes "\<And>p s. stateOK opc s \<Longrightarrow> okResult opc (rec p s)" and "stateOK opc s"
  shows "okResult opc (parsePrecedence rec n prec s)"
  using assms
  by (auto simp add: parsePrecedence_def Let_def okResult_infixLoop split: option.splits
        intro!: okResult_bind)

lemma okResult_expression:
  assumes "\<And>p s. stateOK opc s \<Longrightarrow> okResult opc (rec p s)" and "stateOK opc s"
  shows "okResult opc (expression rec s)"
  using assms by (simp add: expression_def)

lemma okResult_grouping:
  assumes "\<And>p s. stateOK opc s \<Longrightarrow> okResult opc (rec p s)" and "stateOK opc s"
  shows "okResult opc (grouping rec canAssign s)"
  using assms by (auto simp add: grouping_def intro!: okResult_bind)

lemma okResult_unary:
  assumes "\<And>p s. stateOK opc s \<Longrightarrow> okResult opc (rec p s)" and "stateOK opc s"
  shows "okResult opc (unary rec opc canAssign s)"
  using assms by (auto simp add: unary_def Let_def intro!: okResult_bind)

lemma okResult_binary:
  assumes "\<And>p s. stateOK opc s \<Longrightarrow> okResult opc (rec p s)" and "stateOK opc s"
  shows "okResult opc (binary rec opc canAssign s)"
  using assms by (auto simp add: binary_def Let_def intro!: okResult_bind)

lemma stateOK_callArgs:
  assumes "\<And>p s. stateOK opc s \<Longrightarrow> okResult opc (rec p s)"
  shows "stateOK opc s \<Longrightarrow> callArgs rec n k s = Inr (k', s') \<Longrightarrow> stateOK opc s'"
proof (induction n arbitrary: s k)
  case 0
  then show ?case by simp
next
  case (Suc n)
  from Suc.prems(2) obtain s1 where s1: "rec Expression s = Inr s1"
    by (auto split: sum.splits)
  have ok1: "stateOK opc s1" using assms [OF Suc.prems(1), of Expression] s1 by simp
  then have ok2: "stateOK opc (snd (match TOKEN_COMMA s1))" by simp
  show ?case
  proof (cases "fst (match TOKEN_COMMA s1)")
    case True
    then have "callArgs rec n (k + 1) (snd (match TOKEN_COMMA s1)) = Inr (k', s')"
      using Suc.prems(2) s1 by (simp add: split_beta)
    then show ?thesis using Suc.IH [OF ok2] by simp
  next
    case False
    then have "s' = snd (match TOKEN_COMMA s1)"
      using Suc.prems(2) s1 by (simp add: split_beta)
    then show ?thesis using ok2 by simp
  qed
qed

lemma okResult_call:
  assumes "\<And>p s. stateOK opc s \<Longrightarrow> okResult opc (rec p s)" and "stateOK opc s"
  shows "okResult opc (call rec n opc canAssign s)"
proof (cases "check TOKEN_RIGHT_PAREN s")
  case True
  then show ?thesis using assms(2) by (simp add: call_def)
next
  case False
  show ?thesis
  proof (cases "callArgs rec n 0 s")
    case (Inl e)
    then show ?thesis using False by (simp add: call_def)
  next
    case (Inr r)
    then have "callArgs rec n 0 s = Inr (fst r, snd r)" by simp
    then have "stateOK opc (snd r)"
      using stateOK_callArgs
              [where opc = opc and rec = rec and s = s and n = n and k = 0
                 and k' = "fst r" and s' = "snd r"] assms
      by blast
    then show ?thesis using False Inr by (simp add: call_def split_beta)
  qed
qed

lemma okResult_and_fn:
  assumes "\<And>p s. stateOK opc s \<Longrightarrow> okResult opc (rec p s)" and "stateOK opc s"
  shows "okResult opc (and_fn rec opc canAssign s)"
  using assms by (auto simp add: and_fn_def Let_def split_beta intro!: okResult_bind)

lemma okResult_or_fn:
  assumes "\<And>p s. stateOK opc s \<Longrightarrow> okResult opc (rec p s)" and "stateOK opc s"
  shows "okResult opc (or_fn rec opc canAssign s)"
  using assms by (auto simp add: or_fn_def Let_def split_beta intro!: okResult_bind)

lemma okResult_variable:
  assumes "\<And>p s. stateOK opc s \<Longrightarrow> okResult opc (rec p s)" and "stateOK opc s"
  shows "okResult opc (variable rec opc canAssign s)"
  using assms by (auto simp add: variable_def Let_def split_beta intro!: okResult_bind)

lemma okResult_runRule:
  assumes "\<And>p s. stateOK opc s \<Longrightarrow> okResult opc (rec p s)" and "stateOK opc s"
  shows "okResult opc (runRule rec n opc fn canAssign s)"
  using assms
  by (cases fn)
     (simp_all add: runRule_def okResult_grouping okResult_call okResult_unary okResult_binary
        okResult_variable okResult_and_fn okResult_or_fn)

lemma okResult_blockLoop:
  assumes "\<And>p s. stateOK opc s \<Longrightarrow> okResult opc (rec p s)" and "stateOK opc s"
  shows "okResult opc (blockLoop rec n s)"
  using assms(2)
proof (induction n arbitrary: s)
  case 0
  then show ?case by simp
next
  case (Suc n)
  show ?case
    using Suc.prems by (auto simp add: Suc.IH assms(1) intro!: okResult_bind)
qed

lemma okResult_block:
  assumes "\<And>p s. stateOK opc s \<Longrightarrow> okResult opc (rec p s)" and "stateOK opc s"
  shows "okResult opc (block rec n s)"
  using assms by (auto simp add: block_def okResult_blockLoop intro!: okResult_bind)

lemma okResult_funStatement:
  assumes "\<And>p s. stateOK opc s \<Longrightarrow> okResult opc (rec p s)" and "stateOK opc s"
  shows "okResult opc (funStatement rec n opc s)"
  using assms
  by (auto simp add: funStatement_def Let_def split_beta endCompiler_ok stateOK_emitConstant
        intro!: okResult_bind)

lemma okResult_ifStatement:
  assumes "\<And>p s. stateOK opc s \<Longrightarrow> okResult opc (rec p s)" and "stateOK opc s"
  shows "okResult opc (ifStatement rec opc s)"
  using assms by (auto simp add: ifStatement_def Let_def split_beta intro!: okResult_bind)

lemma okResult_returnStatement:
  assumes "\<And>p s. stateOK opc s \<Longrightarrow> okResult opc (rec p s)" and "stateOK opc s"
  shows "okResult opc (returnStatement rec opc s)"
  using assms by (auto simp add: returnStatement_def Let_def split_beta intro!: okResult_bind)

lemma okResult_varStatement:
  assumes "\<And>p s. stateOK opc s \<Longrightarrow> okResult opc (rec p s)" and "stateOK opc s"
  shows "okResult opc (varStatement rec opc s)"
  using assms by (auto simp add: varStatement_def Let_def split_beta intro!: okResult_bind)

lemma okResult_whileStatement:
  assumes "\<And>p s. stateOK opc s \<Longrightarrow> okResult opc (rec p s)" and "stateOK opc s"
  shows "okResult opc (whileStatement rec opc s)"
  using assms by (auto simp add: whileStatement_def Let_def split_beta intro!: okResult_bind)

lemma okResult_statement:
  assumes "\<And>p s. stateOK opc s \<Longrightarrow> okResult opc (rec p s)" and "stateOK opc s"
  shows "okResult opc (statement rec opc s)"
  using assms by (auto simp add: statement_def Let_def split_beta intro!: okResult_bind)

text \<open>Every call of a recursive function of the parser keeps the frames in order.\<close>

lemma run_invariant: "stateOK opc s \<Longrightarrow> okResult opc (run opc n p s)"
proof (induction n arbitrary: p s)
  case 0
  then show ?case by simp
next
  case (Suc n)
  show ?case
    using Suc.prems
    by (cases p)
       (simp_all add: Suc.IH okResult_parsePrecedence okResult_runRule okResult_expression
          okResult_block okResult_funStatement okResult_ifStatement okResult_returnStatement
          okResult_varStatement okResult_whileStatement okResult_statement)
qed

text \<open>In a state in order the depths of the locals of the current frame are sorted.\<close>

lemma stateOK_locals_sorted:
  "stateOK opc s \<Longrightarrow> compiler s = c # cs \<Longrightarrow>
   sorted (map depth (locals c)) \<and> list_all (\<lambda>l. depth l \<le> scopeDepth c) (locals c)"
  by (simp add: stateOK_def frameOK_def frameOK0_def)

lemma okResult_statements: "stateOK opc s \<Longrightarrow> okResult opc (statements opc n s)"
proof (induction n arbitrary: s)
  case 0
  then show ?case by simp
next
  case (Suc n)
  show ?case
    using Suc.prems
    by (auto simp add: split_beta Suc.IH run_invariant intro!: okResult_bind)
qed

lemma compile_finished:
  assumes "compile opc n toks eofl = Inr (Some f, s)"
  shows "list_all (finished opc) (allFunctions f)"
proof -
  let ?s2 = "advance ((beginCompiler (initState toks eofl))\<lparr>hadError := False\<rparr>)"
  let ?r = "if \<not> fst (match TOKEN_EOF ?s2) then statements opc n (snd (match TOKEN_EOF ?s2))
            else Inr (snd (match TOKEN_EOF ?s2))"
  have "stateOK opc (initState toks eofl)" by (simp add: stateOK_def initState_def)
  then have "stateOK opc (beginCompiler (initState toks eofl))" by simp
  then have "stateOK opc ((beginCompiler (initState toks eofl))\<lparr>hadError := False\<rparr>)"
    by (simp add: stateOK_def)
  then have ok: "stateOK opc (snd (match TOKEN_EOF ?s2))" by simp
  then have r: "okResult opc ?r" by (simp add: okResult_statements)
  have c: "compile opc n toks eofl =
             (case ?r of Inl e \<Rightarrow> Inl e | Inr s4 \<Rightarrow> Inr (endCompiler opc s4))"
    by (simp add: compile_def Let_def split_beta)
  then obtain s4 where s4: "?r = Inr s4" "endCompiler opc s4 = (Some f, s)"
    using assms by (auto split: sum.splits)
  have "stateOK opc s4" using r s4(1) by simp
  then show ?thesis using endCompiler_ok [of opc s4] s4(2) by simp
qed

lemma list_all_finished:
  "list_all (finished opc) fs \<Longrightarrow> list_all parallel fs \<and> list_all (endsNullReturn opc) fs"
  by (simp add: list_all_iff finished_def)

lemma run_oneState:
  "run opc 30 Statement oneState =
     Inr \<lparr>hadError = False,
          current = \<lparr>type = TOKEN_EOF, lexeme = [], line = 1\<rparr>,
          previous = tok TOKEN_SEMICOLON '';'',
          compiler =
            [\<lparr>function = ObjFunction [opc OP_CONSTANT, 1, opc OP_POP] [1, 1, 1] 4
                           [VNumber ''1''] 0,
              locals = [], scopeDepth = -1\<rparr>],
          pending = [], eofLine = 1, stderr = []\<rparr>"
  by (simp add: oneState_def oneSource_def tok_def eval_nat_numeral model_defs)

text \<open>
  Claim C6. The code and the line table of a function have the same length: on the
  function \<open>compile\<close> returns and on every function declared inside it; on the function
  of every frame after each call of a recursive function of the parser that starts from
  frames in order (as the call of \<open>compile\<close> does); and \<open>emitByte\<close>, the one operation
  that appends, appends one entry to each.
\<close>

theorem code_and_lines_parallel:
  "(compile opc n toks eofl = Inr (Some f, s) \<longrightarrow> list_all parallel (allFunctions f))
   \<and> (stateOK opc s0 \<and> run opc m p s0 = Inr s1 \<longrightarrow>
        list_all (\<lambda>c. parallel (function c)) (compiler s1))
   \<and> length (code (writeByte b l g)) = length (code g) + 1
   \<and> length (codeLines (writeByte b l g)) = length (codeLines g) + 1"
proof -
  have A: "compile opc n toks eofl = Inr (Some f, s) \<longrightarrow> list_all parallel (allFunctions f)"
    using compile_finished list_all_finished by blast
  have B: "stateOK opc s0 \<and> run opc m p s0 = Inr s1 \<longrightarrow>
             list_all (\<lambda>c. parallel (function c)) (compiler s1)"
  proof
    assume h: "stateOK opc s0 \<and> run opc m p s0 = Inr s1"
    then have r: "run opc m p s0 = Inr s1" and k: "stateOK opc s0" by simp_all
    have "okResult opc (run opc m p s0)" by (rule run_invariant [OF k])
    then have "stateOK opc s1" unfolding r by simp
    then show "list_all (\<lambda>c. parallel (function c)) (compiler s1)"
      by (simp add: stateOK_def frameOK_def frameOK0_def list_all_iff)
  qed
  show ?thesis using A B by (simp add: writeByte_def)
qed

theorem code_and_lines_parallel_witness:
  "(\<exists>f s. compile specOpc 30 funSource 1 = Inr (Some f, s) \<and> list_all parallel (allFunctions f)
          \<and> length (allFunctions f) = 2)
   \<and> (\<exists>s1. stateOK specOpc oneState \<and> run specOpc 30 Statement oneState = Inr s1 \<and>
          list_all (\<lambda>c. parallel (function c)) (compiler s1))"
proof -
  have "stateOK specOpc (initState oneSource 1)"
    by (simp add: stateOK_def initState_def)
  then have ok: "stateOK specOpc oneState"
    by (simp add: oneState_def)
  obtain f s where c: "compile specOpc 30 funSource 1 = Inr (Some f, s)"
    by (simp add: compile_funSource)
  obtain s1 where r: "run specOpc 30 Statement oneState = Inr s1"
    by (simp add: run_oneState)
  note t = code_and_lines_parallel
             [where opc = specOpc and n = 30 and toks = funSource and eofl = 1 and f = f
                and s = s and ?s0.0 = oneState and m = 30 and p = Statement and ?s1.0 = s1]
  have 1: "list_all parallel (allFunctions f)" using t c by blast
  have 2: "list_all (\<lambda>c. parallel (function c)) (compiler s1)" using t ok r by blast
  have 3: "length (allFunctions f) = 2" using c by (auto simp add: compile_funSource)
  show ?thesis using c r ok 1 2 3 by blast
qed

text \<open>
  Claim C7. When \<open>compile\<close> returns a function, the code of that function and of every
  function declared inside it ends with \<open>OP_NULL, OP_RETURN\<close>.
\<close>

theorem functions_end_with_null_return:
  assumes "compile opc n toks eofl = Inr (Some f, s)"
  shows "list_all (endsNullReturn opc) (allFunctions f)"
  using compile_finished [OF assms] list_all_finished by blast

theorem functions_end_with_null_return_witness:
  "\<exists>f s. compile specOpc 30 funSource 1 = Inr (Some f, s) \<and>
     list_all (endsNullReturn specOpc) (allFunctions f) \<and> length (allFunctions f) = 2"
proof -
  obtain f s where c: "compile specOpc 30 funSource 1 = Inr (Some f, s)"
    by (simp add: compile_funSource)
  have 1: "list_all (endsNullReturn specOpc) (allFunctions f)"
    by (rule functions_end_with_null_return [OF c])
  have 2: "length (allFunctions f) = 2" using c by (auto simp add: compile_funSource)
  show ?thesis using c 1 2 by blast
qed

end
